theory Spec2Isabelle
  imports Complex_Main
begin

section \<open>The key layout of \<open>app.py\<close>\<close>

text \<open>
  The Python half of the program is the pair \<open>get_frequency\<close> / \<open>get_key_info\<close>.
  Python integers are unbounded and are modelled by \<open>int\<close>; \<open>//\<close> and \<open>%\<close> floor,
  as \<open>div\<close> and \<open>mod\<close> on \<open>int\<close> do. Python floats are IEEE doubles; a float is
  modelled by the exact real number of the expression that computes it. With the constants
  of the program the float operations on the sizes are exact (\<open>40 * 0.6\<close> evaluates to
  \<open>24.0\<close>, \<open>150 * 0.6\<close> to \<open>90.0\<close>), and so is the position of a black key up to
  \<open>2^53 / 40\<close> white keys. The rounding of the other floats is left out: the frequency
  that the code returns is the double next to the exact value, \<open>inf\<close> from the note 12252
  on and \<open>0.0\<close> for notes far below zero. What the model keeps of a float operation in
  full is whether it raises. Exceptions are values of the type \<open>error\<close>; lists are
  unbounded.
\<close>

datatype error = IndexError | OverflowError | ValueError

definition DEFAULT_KEYS :: int where
  "DEFAULT_KEYS = 24"

definition KEY_WIDTH_PX :: int where
  "KEY_WIDTH_PX = 40"

definition KEY_HEIGHT_PX :: int where
  "KEY_HEIGHT_PX = 150"

definition BLACK_KEY_WIDTH_RATIO :: real where
  "BLACK_KEY_WIDTH_RATIO = 6 / 10"

definition BLACK_KEY_HEIGHT_RATIO :: real where
  "BLACK_KEY_HEIGHT_RATIO = 6 / 10"

text \<open>The dictionary \<open>KEY_MAP\<close>, in insertion order (the order \<open>items()\<close> yields).\<close>

definition KEY_MAP :: "(string \<times> int) list" where
  "KEY_MAP =
    [(''a'', 0), (''w'', 1), (''s'', 2), (''e'', 3), (''d'', 4), (''f'', 5), (''t'', 6),
     (''g'', 7), (''y'', 8), (''h'', 9), (''u'', 10), (''j'', 11), (''k'', 12), (''o'', 13),
     (''l'', 14), (''p'', 15), ('';'', 16), ([CHR 0x27], 17), (''z'', 18), (''x'', 19),
     (''c'', 20), (''v'', 21), (''b'', 22), (''n'', 23), (''m'', 24)]"

text \<open>
  An \<open>int\<close> that meets a float in an arithmetic operation is converted to a double, rounded
  to nearest, and the conversion raises OverflowError when the rounded value is not finite,
  that is from \<open>2^1024 - 2^970\<close> on in absolute value.
\<close>

definition float_overflows :: "int \<Rightarrow> bool" where
  "float_overflows a \<longleftrightarrow> 2 ^ 1024 - 2 ^ 970 \<le> \<bar>a\<bar>"

definition int_to_float :: "int \<Rightarrow> error + real" where
  "int_to_float a = (if float_overflows a then Inl OverflowError else Inr (real_of_int a))"

text \<open>
  \<open>int / int\<close> in Python is correctly rounded to a double and raises OverflowError when the
  rounded quotient is not finite, that is from \<open>2^1024 - 2^970\<close> on in absolute value.
  \<open>2 ** y\<close> on a float \<open>y\<close> raises OverflowError when the power is not finite, that is
  from \<open>y = 1024.0\<close> on; a power that underflows is \<open>0.0\<close>, and the product with
  \<open>440\<close> never raises.
\<close>

definition true_div_overflows :: "int \<Rightarrow> int \<Rightarrow> bool" where
  "true_div_overflows a b \<longleftrightarrow> \<bar>b\<bar> * (2 ^ 1024 - 2 ^ 970) \<le> \<bar>a\<bar>"

definition get_frequency :: "int \<Rightarrow> error + real" where
  "get_frequency midi_note_number =
    (if true_div_overflows (midi_note_number - 69) 12 then Inl OverflowError
     else if 1024 * 12 \<le> midi_note_number - 69 then Inl OverflowError
     else Inr (440 * 2 powr (real_of_int (midi_note_number - 69) / 12)))"

text \<open>A key is the dictionary that \<open>get_key_info\<close> appends, field by field.\<close>

record key =
  midi_note :: int
  frequency :: real
  ktype :: string
  x_position :: real
  y_position :: int
  width :: real
  height :: real
  color :: string
  z_index :: int
  label :: string
  keyboard_key :: "string option"

definition key_types :: "(string \<times> bool) list" where
  "key_types =
    [(''white'', True), (''black'', False), (''white'', True), (''black'', False),
     (''white'', True), (''white'', True), (''black'', False), (''white'', True),
     (''black'', False), (''white'', True), (''black'', False), (''white'', True)]"

text \<open>
  \<open>xs[i]\<close> on a list: an index from 0 to \<open>len - 1\<close> reads from the front, one from
  \<open>-len\<close> to \<open>-1\<close> reads from the back, and every other index raises IndexError.
\<close>

definition py_getitem :: "'a list \<Rightarrow> int \<Rightarrow> error + 'a" where
  "py_getitem xs i =
    (if 0 \<le> i \<and> i < int (length xs) then Inr (xs ! nat i)
     else if - int (length xs) \<le> i \<and> i < 0 then Inr (xs ! nat (int (length xs) + i))
     else Inl IndexError)"

text \<open>\<open>str\<close> of an integer, as the f-string of the label formats it.\<close>

definition digit_char :: "nat \<Rightarrow> char" where
  "digit_char d = ''0123456789'' ! d"

fun str_nat :: "nat \<Rightarrow> string" where
  "str_nat n =
    (if n < 10 then [digit_char n] else str_nat (n div 10) @ [digit_char (n mod 10)])"

definition str_int :: "int \<Rightarrow> string" where
  "str_int i = (if i < 0 then CHR ''-'' # str_nat (nat (- i)) else str_nat (nat i))"

text \<open>
  CPython (3.11, and the earlier versions that carry the same limit) refuses to format an
  integer of more than 4300 decimal digits and raises ValueError.
\<close>

definition str_overflows :: "int \<Rightarrow> bool" where
  "str_overflows v \<longleftrightarrow> 10 ^ 4300 \<le> \<bar>v\<bar>"

definition py_str :: "int \<Rightarrow> error + string" where
  "py_str v = (if str_overflows v then Inl ValueError else Inr (str_int v))"

text \<open>The scan of \<open>KEY_MAP.items()\<close> for the first identifier bound to position \<open>i\<close>.\<close>

definition lookup_keyboard_key :: "int \<Rightarrow> string option" where
  "lookup_keyboard_key i = map_option fst (find (\<lambda>(k, v). v = i) KEY_MAP)"

definition note_in_octave_idx :: "int \<Rightarrow> int \<Rightarrow> int" where
  "note_in_octave_idx start_midi_note i = (start_midi_note + i - 21) mod 12"

text \<open>
  One pass of the loop body, on the loop state \<open>(white_key_count, keys)\<close>. The table access
  comes first; a white key formats its label, a black key converts
  \<open>(white_key_count - 1) * KEY_WIDTH_PX\<close> to a float for its position; the frequency is
  computed last, when the dictionary is built.
\<close>

definition key_body :: "int \<Rightarrow> int \<Rightarrow> int \<times> key list \<Rightarrow> error + (int \<times> key list)" where
  "key_body start_midi_note i st =
    (let white_key_count = fst st;
         keys = snd st;
         current_midi_note = start_midi_note + i;
         idx = note_in_octave_idx start_midi_note i
     in case py_getitem key_types idx of
          Inl e \<Rightarrow> Inl e
        | Inr key_type_info \<Rightarrow>
            (let is_white_key = snd key_type_info;
                 kb = lookup_keyboard_key i
             in if is_white_key then
                  (case (if idx = 0
                         then (case py_str (current_midi_note div 12 - 1) of
                                 Inl e \<Rightarrow> Inl e
                               | Inr t \<Rightarrow> Inr (CHR ''C'' # t))
                         else Inr []) of
                     Inl e \<Rightarrow> Inl e
                   | Inr lab \<Rightarrow>
                       (case get_frequency current_midi_note of
                          Inl e \<Rightarrow> Inl e
                        | Inr f \<Rightarrow>
                            Inr (white_key_count + 1,
                                 keys @ [\<lparr>midi_note = current_midi_note, frequency = f,
                                   ktype = fst key_type_info,
                                   x_position = real_of_int (white_key_count * KEY_WIDTH_PX),
                                   y_position = 0,
                                   width = real_of_int KEY_WIDTH_PX,
                                   height = real_of_int KEY_HEIGHT_PX,
                                   color = ''#FFFFFF'', z_index = 1,
                                   label = lab,
                                   keyboard_key = kb\<rparr>])))
                else
                  (let w = real_of_int KEY_WIDTH_PX * BLACK_KEY_WIDTH_RATIO;
                       h = real_of_int KEY_HEIGHT_PX * BLACK_KEY_HEIGHT_RATIO;
                       offset_factor = 6 / 10
                   in case int_to_float ((white_key_count - 1) * KEY_WIDTH_PX) of
                        Inl e \<Rightarrow> Inl e
                      | Inr a \<Rightarrow>
                          (let xp = a + real_of_int KEY_WIDTH_PX * offset_factor - w / 2
                           in case get_frequency current_midi_note of
                                Inl e \<Rightarrow> Inl e
                              | Inr f \<Rightarrow>
                                  Inr (white_key_count,
                                       keys @ [\<lparr>midi_note = current_midi_note, frequency = f,
                                         ktype = fst key_type_info,
                                         x_position = xp, y_position = 0,
                                         width = w, height = h,
                                         color = ''#333333'', z_index = 2,
                                         label = [],
                                         keyboard_key = kb\<rparr>])))))"

fun key_loop :: "int \<Rightarrow> int list \<Rightarrow> int \<times> key list \<Rightarrow> error + (int \<times> key list)" where
  "key_loop start_midi_note [] st = Inr st"
| "key_loop start_midi_note (i # is) st =
    (case key_body start_midi_note i st of
       Inl e \<Rightarrow> Inl e
     | Inr st' \<Rightarrow> key_loop start_midi_note is st')"

text \<open>\<open>range(n)\<close>: the integers from 0 up to \<open>n - 1\<close>, none when \<open>n\<close> is below 1.\<close>

definition py_range :: "int \<Rightarrow> int list" where
  "py_range n = map int [0..<nat n]"

definition get_key_info :: "int \<Rightarrow> int \<Rightarrow> error + key list" where
  "get_key_info start_midi_note num_keys =
    (case key_loop start_midi_note (py_range num_keys) (0, []) of
       Inl e \<Rightarrow> Inl e
     | Inr st \<Rightarrow> Inr (snd st))"

section \<open>The script of the page\<close>

text \<open>
  The script keeps its state in the \<open>Map\<close> \<open>activeOscillators\<close>, the flag
  \<open>sustainEnabled\<close> and the class \<open>active\<close> of the key elements. A key element is
  identified by its position in the node list \<open>keys\<close>. A \<open>Map\<close> iterates in insertion
  order, so it is an association list with the operations \<open>has\<close>, \<open>get\<close>, \<open>set\<close> and
  \<open>delete\<close>. Audio nodes are numbered in the order of their creation; of the audio graph
  the state records which oscillators were started and for which a stop was scheduled. The
  clock of the audio context and the shape of the envelope are not part of the model; what
  is kept of the envelope is the one call that can throw.

  The page is one that the application generates: the constant \<open>volume\<close> is the value of
  the volume slider, from 0.0 to 1.0 in steps of 0.05, and the keys are those of a layout
  from the slider ranges, whose frequencies are finite numbers that the oscillator accepts.
\<close>

type_synonym elem = nat

record voice =
  oscillator :: nat
  gainNode :: nat

definition map_has :: "('k \<times> 'v) list \<Rightarrow> 'k \<Rightarrow> bool" where
  "map_has m k \<longleftrightarrow> k \<in> set (map fst m)"

definition map_get :: "('k \<times> 'v) list \<Rightarrow> 'k \<Rightarrow> 'v option" where
  "map_get m k = map_of m k"

definition map_set :: "('k \<times> 'v) list \<Rightarrow> 'k \<Rightarrow> 'v \<Rightarrow> ('k \<times> 'v) list" where
  "map_set m k v =
    (if map_has m k then map (\<lambda>(k', v'). if k' = k then (k', v) else (k', v')) m
     else m @ [(k, v)])"

definition map_delete :: "('k \<times> 'v) list \<Rightarrow> 'k \<Rightarrow> ('k \<times> 'v) list" where
  "map_delete m k = filter (\<lambda>(k', v'). k' \<noteq> k) m"

text \<open>
  The field \<open>released\<close> is a history variable: the key elements with which the event
  handlers called \<open>stopNote\<close>, in the order of the calls. Nothing reads it.
\<close>

record page =
  activeOscillators :: "(elem \<times> voice) list"
  sustainEnabled :: bool
  active :: "elem set"
  nodes :: nat
  started :: "nat list"
  stopped :: "nat list"
  released :: "elem list"

definition init :: page where
  "init = \<lparr>activeOscillators = [], sustainEnabled = False, active = {}, nodes = 0,
           started = [], stopped = [], released = []\<rparr>"

text \<open>
  A call returns, or it throws and leaves the state as it is at the throw. An exception
  that leaves a listener ends that listener; the page goes on with the next event.
\<close>

datatype js_error = RangeError

datatype completion = Returned page | Thrown js_error page

fun state_of :: "completion \<Rightarrow> page" where
  "state_of (Returned s) = s"
| "state_of (Thrown e s) = s"

definition sustainLevel :: real where
  "sustainLevel = 7 / 10"

text \<open>
  \<open>playNote\<close> creates the oscillator and the gain node and schedules the envelope before
  it starts the oscillator and stores the voice. \<open>exponentialRampToValueAtTime\<close> throws a
  RangeError for the target value 0, and the target is \<open>volume * sustainLevel\<close>: with the
  volume 0 the call throws, after the two nodes are created and before the oscillator is
  started and the voice is stored. No other call of \<open>playNote\<close> throws on such a page.
\<close>

fun playNote :: "real \<Rightarrow> elem option \<Rightarrow> page \<Rightarrow> completion" where
  "playNote volume None s = Returned s"
| "playNote volume (Some keyElement) s =
    (if map_has (activeOscillators s) keyElement then Returned s
     else if volume * sustainLevel = 0 then Thrown RangeError (s\<lparr>nodes := nodes s + 2\<rparr>)
     else Returned
            (s\<lparr>nodes := nodes s + 2,
               started := started s @ [nodes s],
               activeOscillators :=
                 map_set (activeOscillators s) keyElement
                   \<lparr>oscillator = nodes s, gainNode = nodes s + 1\<rparr>\<rparr>))"

text \<open>No call of \<open>stopNote\<close> throws: the ramp to 0 is linear.\<close>

fun stopNote :: "elem option \<Rightarrow> page \<Rightarrow> page" where
  "stopNote None s = s"
| "stopNote (Some keyElement) s =
    (case map_get (activeOscillators s) keyElement of
       None \<Rightarrow> s
     | Some v \<Rightarrow>
         if \<not> sustainEnabled s
         then s\<lparr>stopped := stopped s @ [oscillator v],
                activeOscillators := map_delete (activeOscillators s) keyElement\<rparr>
         else s)"

text \<open>A call of \<open>stopNote\<close> from an event handler, entered in the history.\<close>

definition call_stopNote :: "elem \<Rightarrow> page \<Rightarrow> page" where
  "call_stopNote keyElement s = stopNote (Some keyElement) (s\<lparr>released := released s @ [keyElement]\<rparr>)"

definition classList_add :: "elem \<Rightarrow> page \<Rightarrow> page" where
  "classList_add keyElement s = s\<lparr>active := insert keyElement (active s)\<rparr>"

definition classList_remove :: "elem \<Rightarrow> page \<Rightarrow> page" where
  "classList_remove keyElement s = s\<lparr>active := active s - {keyElement}\<rparr>"

text \<open>
  \<open>toLowerCase\<close>, a string being its bytes in UTF-8. The ASCII capitals go to their small
  letters, and the Kelvin sign U+212A (the bytes E2 84 AA) goes to \<open>k\<close>. Every other
  character outside ASCII is left as it is: its lower case is outside ASCII too, or longer
  than one character, and is no identifier of the key map either way.
\<close>

definition lower_char :: "char \<Rightarrow> char" where
  "lower_char c =
    (case map_of (zip ''ABCDEFGHIJKLMNOPQRSTUVWXYZ'' ''abcdefghijklmnopqrstuvwxyz'') c of
       None \<Rightarrow> c
     | Some l \<Rightarrow> l)"

definition kelvin_sign :: string where
  "kelvin_sign = [CHR 0xE2, CHR 0x84, CHR 0xAA]"

fun toLowerCase :: "string \<Rightarrow> string" where
  "toLowerCase (a # b # c # str) =
    (if [a, b, c] = kelvin_sign then CHR ''k'' # toLowerCase str
     else lower_char a # toLowerCase (b # c # str))"
| "toLowerCase (a # str) = lower_char a # toLowerCase str"
| "toLowerCase [] = []"

text \<open>A keyboard event carries the physical \<open>code\<close> and the character \<open>key\<close>.\<close>

record keyboard_event =
  code :: string
  ev_key :: string

datatype event =
  Mousedown elem | Mouseup elem | Mouseleave elem
  | Keydown keyboard_event | Keyup keyboard_event

text \<open>
  \<open>activeOscillators.forEach\<close> with the callback of the \<open>keyup\<close> handler. The iteration
  is live: an entry deleted before its turn is skipped. The callback adds no entry, so the
  entries to visit are those of the keys at the start that are still present.
\<close>

fun forEach_stop :: "elem list \<Rightarrow> page \<Rightarrow> page" where
  "forEach_stop [] s = s"
| "forEach_stop (keyElement # rest) s =
    forEach_stop rest
      (if map_has (activeOscillators s) keyElement
       then classList_remove keyElement (call_stopNote keyElement s)
       else s)"

text \<open>
  The listeners; \<open>mouseleave\<close> has the body of \<open>mouseup\<close>. Where \<open>playNote\<close> throws, the
  \<open>classList.add\<close> after it is not reached.
\<close>

definition mousedown :: "real \<Rightarrow> elem \<Rightarrow> page \<Rightarrow> page" where
  "mousedown volume k s =
    (case playNote volume (Some k) s of
       Returned s' \<Rightarrow> classList_add k s'
     | Thrown e s' \<Rightarrow> s')"

definition mouseup :: "elem \<Rightarrow> page \<Rightarrow> page" where
  "mouseup k s =
    (let s' = call_stopNote k s
     in if \<not> sustainEnabled s' then classList_remove k s' else s')"

definition keydown :: "real \<Rightarrow> (string \<rightharpoonup> elem) \<Rightarrow> keyboard_event \<Rightarrow> page \<Rightarrow> page" where
  "keydown volume keyMap ev s =
    (if code ev = ''Space'' then s\<lparr>sustainEnabled := True\<rparr>
     else case keyMap (toLowerCase (ev_key ev)) of
            None \<Rightarrow> s
          | Some keyElement \<Rightarrow>
              (case playNote volume (Some keyElement) s of
                 Returned s' \<Rightarrow> classList_add keyElement s'
               | Thrown e s' \<Rightarrow> s'))"

definition keyup :: "(string \<rightharpoonup> elem) \<Rightarrow> keyboard_event \<Rightarrow> page \<Rightarrow> page" where
  "keyup keyMap ev s =
    (if code ev = ''Space''
     then (let s' = s\<lparr>sustainEnabled := False\<rparr>
           in forEach_stop (map fst (activeOscillators s')) s')
     else case keyMap (toLowerCase (ev_key ev)) of
            None \<Rightarrow> s
          | Some keyElement \<Rightarrow>
              if \<not> sustainEnabled s
              then classList_remove keyElement (call_stopNote keyElement s)
              else s)"

fun dispatch :: "real \<Rightarrow> (string \<rightharpoonup> elem) \<Rightarrow> page \<Rightarrow> event \<Rightarrow> page" where
  "dispatch volume keyMap s (Mousedown k) = mousedown volume k s"
| "dispatch volume keyMap s (Mouseup k) = mouseup k s"
| "dispatch volume keyMap s (Mouseleave k) = mouseup k s"
| "dispatch volume keyMap s (Keydown ev) = keydown volume keyMap ev s"
| "dispatch volume keyMap s (Keyup ev) = keyup keyMap ev s"

definition run :: "real \<Rightarrow> (string \<rightharpoonup> elem) \<Rightarrow> event list \<Rightarrow> page \<Rightarrow> page" where
  "run volume keyMap evs s = foldl (dispatch volume keyMap) s evs"

text \<open>
  The attribute \<open>data-keyboard-key\<close> that the page gives each key (Python formats an
  absent binding as \<open>None\<close>) and the \<open>keyMap\<close> the script builds from the attributes,
  a later element replacing an earlier one with the same identifier.
\<close>

definition data_keyboard_key :: "key \<Rightarrow> string" where
  "data_keyboard_key k = (case keyboard_key k of None \<Rightarrow> ''None'' | Some c \<Rightarrow> c)"

definition build_keyMap :: "string list \<Rightarrow> (string \<rightharpoonup> elem)" where
  "build_keyMap ds =
    foldl (\<lambda>m (i, keyboardKey). if keyboardKey \<noteq> [] then m(keyboardKey \<mapsto> i) else m)
      Map.empty (zip [0..<length ds] ds)"

section \<open>Auxiliary definitions\<close>

text \<open>
  The notes on which \<open>get_frequency\<close> returns, the white counts with which the position
  of a black key is computed, the key that the loop body builds at position \<open>i\<close> with
  \<open>wc\<close> white keys before it, and the list of keys built over a list of positions.
\<close>

definition freq_defined :: "int \<Rightarrow> bool" where
  "freq_defined n \<longleftrightarrow> \<not> true_div_overflows (n - 69) 12 \<and> n - 69 < 1024 * 12"

definition black_x_defined :: "int \<Rightarrow> bool" where
  "black_x_defined wc \<longleftrightarrow> \<not> float_overflows ((wc - 1) * KEY_WIDTH_PX)"

definition white_at :: "int \<Rightarrow> int \<Rightarrow> bool" where
  "white_at s i = snd (key_types ! nat (note_in_octave_idx s i))"

definition mk_key :: "int \<Rightarrow> int \<Rightarrow> int \<Rightarrow> key" where
  "mk_key s i wc =
    (let n = s + i; idx = note_in_octave_idx s i in
     \<lparr>midi_note = n, frequency = 440 * 2 powr (real_of_int (n - 69) / 12),
      ktype = fst (key_types ! nat idx),
      x_position = (if white_at s i then real_of_int (wc * 40) else real_of_int ((wc - 1) * 40) + 12),
      y_position = 0,
      width = (if white_at s i then 40 else 24),
      height = (if white_at s i then 150 else 90),
      color = (if white_at s i then ''#FFFFFF'' else ''#333333''),
      z_index = (if white_at s i then 1 else 2),
      label = (if idx = 0 then CHR ''C'' # str_int (n div 12 - 1) else []),
      keyboard_key = lookup_keyboard_key i\<rparr>)"

fun mk_keys :: "int \<Rightarrow> int list \<Rightarrow> int \<Rightarrow> key list" where
  "mk_keys s [] wc = []"
| "mk_keys s (i # is) wc = mk_key s i wc # mk_keys s is (if white_at s i then wc + 1 else wc)"

fun white_total :: "int \<Rightarrow> int list \<Rightarrow> int \<Rightarrow> int" where
  "white_total s [] wc = wc"
| "white_total s (i # is) wc = white_total s is (if white_at s i then wc + 1 else wc)"

text \<open>The passes of the loop over a list of positions all return.\<close>

fun loop_defined :: "int \<Rightarrow> int list \<Rightarrow> int \<Rightarrow> bool" where
  "loop_defined s [] wc = True"
| "loop_defined s (i # is) wc =
    (freq_defined (s + i) \<and> (\<not> white_at s i \<longrightarrow> black_x_defined wc)
     \<and> loop_defined s is (if white_at s i then wc + 1 else wc))"

definition whites :: "int \<Rightarrow> int list \<Rightarrow> nat" where
  "whites s js = length (filter (white_at s) js)"

text \<open>
  The ranges on which \<open>get_key_info\<close> returns: \<open>get_frequency\<close> returns on every note
  (the first note above \<open>69 - 12 * (2^1024 - 2^970)\<close>, the last below \<open>12357\<close>), and for
  every black key the integer \<open>(white_key_count - 1) * KEY_WIDTH_PX\<close>, with the white keys
  counted before it, converts to a float.
\<close>

definition notes_in_float_range :: "int \<Rightarrow> int \<Rightarrow> bool" where
  "notes_in_float_range s n \<longleftrightarrow>
     n < 1 \<or> (69 - 12 * (2 ^ 1024 - 2 ^ 970) < s \<and> s + n \<le> 12357)"

definition black_keys_in_float_range :: "int \<Rightarrow> int \<Rightarrow> bool" where
  "black_keys_in_float_range s n \<longleftrightarrow>
     (\<forall>i \<in> set (py_range n). \<not> white_at s i \<longrightarrow>
        (int (whites s (py_range i)) - 1) * KEY_WIDTH_PX < 2 ^ 1024 - 2 ^ 970)"

definition layout_returns :: "int \<Rightarrow> int \<Rightarrow> bool" where
  "layout_returns s n \<longleftrightarrow> notes_in_float_range s n \<and> black_keys_in_float_range s n"

text \<open>The keys of the voice map are distinct and are the elements marked active.\<close>

definition consistent :: "page \<Rightarrow> bool" where
  "consistent s \<longleftrightarrow>
     distinct (map fst (activeOscillators s)) \<and> active s = set (map fst (activeOscillators s))"

text \<open>The state in which a listener leaves the page after \<open>playNote\<close> and \<open>classList.add\<close>.\<close>

definition press :: "real \<Rightarrow> elem \<Rightarrow> page \<Rightarrow> page" where
  "press volume k s =
    (case playNote volume (Some k) s of
       Returned s' \<Rightarrow> classList_add k s'
     | Thrown e s' \<Rightarrow> s')"

section \<open>The layout loop in closed form\<close>

lemma idx_range: "0 \<le> note_in_octave_idx s i \<and> note_in_octave_idx s i < 12"
  by (simp add: note_in_octave_idx_def)

lemma getitem_key_types:
  "py_getitem key_types (note_in_octave_idx s i) = Inr (key_types ! nat (note_in_octave_idx s i))"
  using idx_range [of s i] by (simp add: py_getitem_def key_types_def)

lemma get_frequency_defined:
  "freq_defined n \<Longrightarrow> get_frequency n = Inr (440 * 2 powr (real_of_int (n - 69) / 12))"
  by (simp add: get_frequency_def freq_defined_def)

lemma get_frequency_undefined:
  "\<not> freq_defined n \<Longrightarrow> get_frequency n = Inl OverflowError"
  by (auto simp add: get_frequency_def freq_defined_def)

lemma freq_defined_iff: "freq_defined n \<longleftrightarrow> 69 - 12 * (2 ^ 1024 - 2 ^ 970) < n \<and> n < 12357"
proof -
  have "(12288::int) < 12 * (2 ^ 1024 - 2 ^ 970)" by simp
  then show ?thesis
    unfolding freq_defined_def true_div_overflows_def by linarith
qed

lemma black_x_defined_iff:
  "black_x_defined wc \<longleftrightarrow> \<bar>(wc - 1) * KEY_WIDTH_PX\<bar> < 2 ^ 1024 - 2 ^ 970"
  unfolding black_x_defined_def float_overflows_def by linarith

text \<open>An integer of the float range has well under 4300 digits.\<close>

lemma not_str_overflows:
  assumes "\<bar>v\<bar> < 2 ^ 1030"
  shows "\<not> str_overflows v"
proof -
  have "(2::int) ^ 1030 \<le> 10 ^ 1030" by (rule power_mono) simp_all
  also have "(10::int) ^ 1030 \<le> 10 ^ 4300" by (rule power_increasing) simp_all
  finally have "\<bar>v\<bar> < 10 ^ 4300" using assms by (rule order.strict_trans2 [rotated])
  then show ?thesis unfolding str_overflows_def by (simp only: not_le)
qed

lemma py_str_below_limit: "\<bar>v\<bar> < 2 ^ 1030 \<Longrightarrow> py_str v = Inr (str_int v)"
  using not_str_overflows [of v] by (simp only: py_str_def if_False)

lemma label_defined:
  assumes "freq_defined n"
  shows "py_str (n div 12 - 1) = Inr (str_int (n div 12 - 1))"
proof -
  define T :: int where "T = 2 ^ 1024 - 2 ^ 970"
  define q where "q = n div 12"
  from assms have lo: "69 - 12 * T < n" and hi: "n < 12357"
    by (simp_all add: freq_defined_iff T_def)
  have "12 * q \<le> n" and "n < 12 * q + 12"
    unfolding q_def
    using div_mult_mod_eq [of n 12] pos_mod_bound [of 12 n] pos_mod_sign [of 12 n]
    by linarith+
  moreover have "100 < T" by (simp add: T_def)
  ultimately have "\<bar>q - 1\<bar> < 12 * T + 100" using lo hi by linarith
  moreover have "12 * T + 100 < 2 ^ 1030" by (simp add: T_def)
  ultimately have "\<bar>n div 12 - 1\<bar> < 2 ^ 1030" unfolding q_def by (rule order.strict_trans)
  then show ?thesis by (rule py_str_below_limit)
qed



lemma white_class_zero: "note_in_octave_idx s i = 0 \<Longrightarrow> white_at s i"
  by (simp add: white_at_def key_types_def)

lemma key_body_white:
  assumes "freq_defined (s + i)" and "white_at s i"
  shows "key_body s i (wc, ks) = Inr (wc + 1, ks @ [mk_key s i wc])"
  using assms label_defined [OF assms(1)]
  by (simp add: key_body_def getitem_key_types get_frequency_defined mk_key_def white_at_def
      Let_def KEY_WIDTH_PX_def KEY_HEIGHT_PX_def)

lemma key_body_black:
  assumes "freq_defined (s + i)" and "\<not> white_at s i" and "black_x_defined wc"
  shows "key_body s i (wc, ks) = Inr (wc, ks @ [mk_key s i wc])"
proof -
  have "note_in_octave_idx s i \<noteq> 0" using assms(2) white_class_zero by blast
  moreover have "int_to_float ((wc - 1) * KEY_WIDTH_PX) = Inr (real_of_int ((wc - 1) * KEY_WIDTH_PX))"
    using assms(3) by (simp add: int_to_float_def black_x_defined_def)
  ultimately show ?thesis
    using assms(1,2)
    by (simp add: key_body_def getitem_key_types get_frequency_defined mk_key_def white_at_def
        Let_def KEY_WIDTH_PX_def KEY_HEIGHT_PX_def BLACK_KEY_WIDTH_RATIO_def
        BLACK_KEY_HEIGHT_RATIO_def)
qed

lemma key_body_defined:
  assumes "freq_defined (s + i)" and "\<not> white_at s i \<longrightarrow> black_x_defined wc"
  shows "key_body s i (wc, ks) = Inr (if white_at s i then wc + 1 else wc, ks @ [mk_key s i wc])"
  using assms by (cases "white_at s i") (simp_all add: key_body_white key_body_black)

text \<open>Where a pass does not return it raises, and never an IndexError.\<close>

lemma key_body_black_overflow:
  assumes "\<not> white_at s i" and "\<not> black_x_defined wc"
  shows "key_body s i (wc, ks) = Inl OverflowError"
  using assms
  by (simp add: key_body_def getitem_key_types white_at_def Let_def int_to_float_def
      black_x_defined_def)

lemma key_body_frequency_overflow:
  assumes "\<not> freq_defined (s + i)"
    and "note_in_octave_idx s i = 0 \<longrightarrow> \<not> str_overflows ((s + i) div 12 - 1)"
  shows "key_body s i (wc, ks) = Inl OverflowError"
  using assms
  by (simp add: key_body_def getitem_key_types get_frequency_undefined Let_def py_str_def
      int_to_float_def split: sum.splits)

lemma key_body_label_overflow:
  assumes "note_in_octave_idx s i = 0" and "str_overflows ((s + i) div 12 - 1)"
  shows "key_body s i (wc, ks) = Inl ValueError"
proof -
  have "py_getitem key_types 0 = Inr (''white'', True)"
    by (simp add: py_getitem_def key_types_def)
  then show ?thesis
    using assms by (simp add: key_body_def Let_def py_str_def)
qed

lemma key_body_undefined:
  assumes "\<not> (freq_defined (s + i) \<and> (\<not> white_at s i \<longrightarrow> black_x_defined wc))"
  shows "key_body s i (wc, ks) = Inl OverflowError \<or> key_body s i (wc, ks) = Inl ValueError"
proof (cases "note_in_octave_idx s i = 0 \<and> str_overflows ((s + i) div 12 - 1)")
  case True
  then show ?thesis by (simp add: key_body_label_overflow)
next
  case False
  show ?thesis
  proof (cases "freq_defined (s + i)")
    case True
    with assms have "\<not> white_at s i" and "\<not> black_x_defined wc" by simp_all
    then show ?thesis by (simp add: key_body_black_overflow)
  next
    case nf: False
    with False show ?thesis by (simp add: key_body_frequency_overflow)
  qed
qed

lemma key_loop_defined:
  "loop_defined s js wc \<Longrightarrow>
   key_loop s js (wc, ks) = Inr (white_total s js wc, ks @ mk_keys s js wc)"
  by (induction js arbitrary: wc ks) (simp_all add: key_body_defined)

lemma key_loop_undefined:
  "\<not> loop_defined s js wc \<Longrightarrow>
   key_loop s js (wc, ks) = Inl OverflowError \<or> key_loop s js (wc, ks) = Inl ValueError"
proof (induction js arbitrary: wc ks)
  case Nil
  then show ?case by simp
next
  case (Cons j js)
  show ?case
  proof (cases "freq_defined (s + j) \<and> (\<not> white_at s j \<longrightarrow> black_x_defined wc)")
    case True
    with Cons.prems have "\<not> loop_defined s js (if white_at s j then wc + 1 else wc)" by simp
    then have "key_loop s js (if white_at s j then wc + 1 else wc, ks @ [mk_key s j wc])
        = Inl OverflowError
      \<or> key_loop s js (if white_at s j then wc + 1 else wc, ks @ [mk_key s j wc])
        = Inl ValueError"
      by (rule Cons.IH)
    with True show ?thesis by (simp add: key_body_defined)
  next
    case False
    then have "key_body s j (wc, ks) = Inl OverflowError \<or> key_body s j (wc, ks) = Inl ValueError"
      by (rule key_body_undefined)
    then show ?thesis by auto
  qed
qed

text \<open>With labels of at most 4300 digits the error is an OverflowError.\<close>

lemma key_loop_overflow:
  assumes "\<not> loop_defined s js wc"
    and "\<forall>i \<in> set js. \<not> str_overflows ((s + i) div 12 - 1)"
  shows "key_loop s js (wc, ks) = Inl OverflowError"
  using assms
proof (induction js arbitrary: wc ks)
  case Nil
  then show ?case by simp
next
  case (Cons j js)
  have lab: "\<not> str_overflows ((s + j) div 12 - 1)" using Cons.prems(2) by simp
  show ?case
  proof (cases "freq_defined (s + j) \<and> (\<not> white_at s j \<longrightarrow> black_x_defined wc)")
    case True
    with Cons.prems have "\<not> loop_defined s js (if white_at s j then wc + 1 else wc)"
      and "\<forall>i \<in> set js. \<not> str_overflows ((s + i) div 12 - 1)" by simp_all
    then have "key_loop s js (if white_at s j then wc + 1 else wc, ks @ [mk_key s j wc])
        = Inl OverflowError"
      by (rule Cons.IH)
    with True show ?thesis by (simp add: key_body_defined)
  next
    case False
    have "key_body s j (wc, ks) = Inl OverflowError"
    proof (cases "freq_defined (s + j)")
      case True
      with False show ?thesis by (simp add: key_body_black_overflow)
    next
      case nf: False
      with lab show ?thesis by (simp add: key_body_frequency_overflow)
    qed
    then show ?thesis by simp
  qed
qed

lemma set_py_range: "set (py_range n) = {i. 0 \<le> i \<and> i < n}"
proof -
  have "i \<in> int ` {0..<nat n} \<longleftrightarrow> 0 \<le> i \<and> i < n" for i
  proof
    assume "i \<in> int ` {0..<nat n}"
    then show "0 \<le> i \<and> i < n" by auto
  next
    assume "0 \<le> i \<and> i < n"
    then have "nat i \<in> {0..<nat n}" and "i = int (nat i)" by auto
    then show "i \<in> int ` {0..<nat n}" by (rule_tac image_eqI)
  qed
  then show ?thesis by (auto simp add: py_range_def)
qed

lemma py_range_nth: "j < nat n \<Longrightarrow> py_range n ! j = int j"
  by (simp add: py_range_def)

lemma length_py_range: "length (py_range n) = nat n"
  by (simp add: py_range_def)

lemma take_py_range: "j \<le> nat n \<Longrightarrow> take j (py_range n) = py_range (int j)"
  by (simp add: py_range_def take_map min_def)

lemma range_defined:
  "notes_in_float_range s n \<longleftrightarrow> (\<forall>i \<in> set (py_range n). freq_defined (s + i))"
proof
  assume "notes_in_float_range s n"
  then show "\<forall>i \<in> set (py_range n). freq_defined (s + i)"
    by (auto simp add: notes_in_float_range_def set_py_range freq_defined_iff)
next
  assume a: "\<forall>i \<in> set (py_range n). freq_defined (s + i)"
  show "notes_in_float_range s n"
  proof (cases "n < 1")
    case True
    then show ?thesis by (simp add: notes_in_float_range_def)
  next
    case False
    then have "0 \<in> set (py_range n)" and "n - 1 \<in> set (py_range n)"
      by (simp_all add: set_py_range)
    with a have "freq_defined (s + 0)" and "freq_defined (s + (n - 1))" by blast+
    then show ?thesis by (simp add: notes_in_float_range_def freq_defined_iff)
  qed
qed

lemma black_x_defined_nonneg:
  "0 \<le> wc \<Longrightarrow> black_x_defined wc \<longleftrightarrow> (wc - 1) * KEY_WIDTH_PX < 2 ^ 1024 - 2 ^ 970"
proof -
  assume "0 \<le> wc"
  then have "- 40 \<le> (wc - 1) * KEY_WIDTH_PX" by (simp add: KEY_WIDTH_PX_def)
  moreover have "(40::int) < 2 ^ 1024 - 2 ^ 970" by simp
  ultimately show ?thesis unfolding black_x_defined_iff by linarith
qed

lemma loop_defined_iff:
  "loop_defined s js wc \<longleftrightarrow>
     (\<forall>i \<in> set js. freq_defined (s + i))
     \<and> (\<forall>j < length js. \<not> white_at s (js ! j) \<longrightarrow>
           black_x_defined (wc + int (whites s (take j js))))"
proof (induction js arbitrary: wc)
  case Nil
  then show ?case by simp
next
  case (Cons i js)
  let ?wc = "if white_at s i then wc + 1 else wc"
  have split: "(\<forall>j < length (i # js). P j) \<longleftrightarrow> P 0 \<and> (\<forall>m < length js. P (Suc m))"
    for P :: "nat \<Rightarrow> bool"
    by (auto simp add: less_Suc_eq_0_disj)
  have w: "wc + int (whites s (take (Suc m) (i # js))) = ?wc + int (whites s (take m js))" for m
    by (simp add: whites_def)
  show ?case
    unfolding loop_defined.simps Cons.IH [of ?wc] split w
    by (auto simp add: whites_def)
qed

lemma layout_returns_iff: "layout_returns s n \<longleftrightarrow> loop_defined s (py_range n) 0"
proof -
  have "black_keys_in_float_range s n \<longleftrightarrow>
      (\<forall>j < length (py_range n). \<not> white_at s (py_range n ! j) \<longrightarrow>
           black_x_defined (0 + int (whites s (take j (py_range n)))))"
  proof
    assume a: "black_keys_in_float_range s n"
    show "\<forall>j < length (py_range n). \<not> white_at s (py_range n ! j) \<longrightarrow>
           black_x_defined (0 + int (whites s (take j (py_range n))))"
    proof (intro allI impI)
      fix j
      assume j: "j < length (py_range n)" and b: "\<not> white_at s (py_range n ! j)"
      then have jn: "j < nat n" by (simp add: length_py_range)
      then have "int j \<in> set (py_range n)" by (simp add: set_py_range)
      with a b jn have "(int (whites s (py_range (int j))) - 1) * KEY_WIDTH_PX < 2 ^ 1024 - 2 ^ 970"
        by (simp add: black_keys_in_float_range_def py_range_nth)
      then show "black_x_defined (0 + int (whites s (take j (py_range n))))"
        using jn by (simp add: take_py_range black_x_defined_nonneg)
    qed
  next
    assume a: "\<forall>j < length (py_range n). \<not> white_at s (py_range n ! j) \<longrightarrow>
           black_x_defined (0 + int (whites s (take j (py_range n))))"
    show "black_keys_in_float_range s n"
      unfolding black_keys_in_float_range_def
    proof (intro ballI impI)
      fix i
      assume i: "i \<in> set (py_range n)" and b: "\<not> white_at s i"
      then have jn: "nat i < nat n" and ii: "int (nat i) = i" by (simp_all add: set_py_range)
      with a b have "black_x_defined (0 + int (whites s (take (nat i) (py_range n))))"
        by (simp add: length_py_range py_range_nth)
      then show "(int (whites s (py_range i)) - 1) * KEY_WIDTH_PX < 2 ^ 1024 - 2 ^ 970"
        using jn ii by (simp add: take_py_range black_x_defined_nonneg)
    qed
  qed
  then show ?thesis
    by (simp add: layout_returns_def loop_defined_iff range_defined)
qed

lemma get_key_info_defined:
  "layout_returns s n \<Longrightarrow> get_key_info s n = Inr (mk_keys s (py_range n) 0)"
  by (simp add: get_key_info_def key_loop_defined layout_returns_iff)

lemma get_key_info_undefined:
  assumes "\<not> layout_returns s n"
  shows "get_key_info s n = Inl OverflowError \<or> get_key_info s n = Inl ValueError"
proof -
  from assms have "\<not> loop_defined s (py_range n) 0" by (simp add: layout_returns_iff)
  then have "key_loop s (py_range n) (0, []) = Inl OverflowError
      \<or> key_loop s (py_range n) (0, []) = Inl ValueError"
    by (rule key_loop_undefined)
  then show ?thesis by (auto simp add: get_key_info_def)
qed

lemma get_key_info_overflow:
  assumes "\<not> layout_returns s n"
    and "\<forall>i \<in> set (py_range n). \<not> str_overflows ((s + i) div 12 - 1)"
  shows "get_key_info s n = Inl OverflowError"
proof -
  from assms(1) have "\<not> loop_defined s (py_range n) 0" by (simp add: layout_returns_iff)
  then have "key_loop s (py_range n) (0, []) = Inl OverflowError"
    using assms(2) by (rule key_loop_overflow)
  then show ?thesis by (simp add: get_key_info_def)
qed

lemma get_key_info_Inr:
  "get_key_info s n = Inr ks \<Longrightarrow> layout_returns s n \<and> ks = mk_keys s (py_range n) 0"
  using get_key_info_undefined [of s n]
  by (cases "layout_returns s n") (auto simp add: get_key_info_defined)

text \<open>A range of the float notes with \<open>40 * n\<close> below the float bound is one that returns.\<close>

lemma whites_le_length: "whites s js \<le> length js"
  by (simp add: whites_def)

lemma layout_returns_small:
  assumes "notes_in_float_range s n" and "n * KEY_WIDTH_PX \<le> 2 ^ 1024 - 2 ^ 970"
  shows "layout_returns s n"
proof -
  have "(int (whites s (py_range i)) - 1) * KEY_WIDTH_PX < 2 ^ 1024 - 2 ^ 970"
    if "i \<in> set (py_range n)" for i
  proof -
    from that have "0 \<le> i" and "i < n" by (simp_all add: set_py_range)
    moreover have "int (whites s (py_range i)) \<le> int (length (py_range i))"
      using whites_le_length [of s "py_range i"] by simp
    ultimately have "int (whites s (py_range i)) - 1 < n" by (simp add: length_py_range)
    then have "(int (whites s (py_range i)) - 1) * KEY_WIDTH_PX < n * KEY_WIDTH_PX"
      by (simp add: KEY_WIDTH_PX_def)
    with assms(2) show ?thesis by linarith
  qed
  with assms(1) show ?thesis
    by (simp add: layout_returns_def black_keys_in_float_range_def)
qed

lemma length_mk_keys: "length (mk_keys s js wc) = length js"
  by (induction js arbitrary: wc) simp_all

lemma mk_keys_nth:
  "j < length js \<Longrightarrow> mk_keys s js wc ! j = mk_key s (js ! j) (wc + int (whites s (take j js)))"
proof (induction js arbitrary: wc j)
  case Nil
  then show ?case by simp
next
  case (Cons i js)
  show ?case
  proof (cases j)
    case 0
    then show ?thesis by (simp add: whites_def)
  next
    case (Suc m)
    with Cons.prems have "m < length js" by simp
    then show ?thesis using Suc by (simp add: Cons.IH whites_def add.assoc)
  qed
qed

lemma ktype_mk_key: "ktype (mk_key s i wc) = ''white'' \<longleftrightarrow> white_at s i"
proof -
  have "\<forall>m < 12. fst (key_types ! m) = ''white'' \<longleftrightarrow> snd (key_types ! m)"
    unfolding key_types_def by (simp add: All_less_Suc numeral_eq_Suc del: One_nat_def)
  moreover have "nat (note_in_octave_idx s i) < 12" using idx_range [of s i] by linarith
  ultimately show ?thesis by (simp add: mk_key_def white_at_def Let_def)
qed

lemma white_rank_mk_keys:
  "length (filter (\<lambda>k. ktype k = ''white'') (take j (mk_keys s js wc))) = whites s (take j js)"
proof (induction js arbitrary: wc j)
  case Nil
  then show ?case by (simp add: whites_def)
next
  case (Cons i js)
  show ?case
  proof (cases j)
    case 0
    then show ?thesis by (simp add: whites_def)
  next
    case (Suc m)
    have "length (filter (\<lambda>k. ktype k = ''white'') (take m (mk_keys s js wc'))) = whites s (take m js)" for wc'
      by (rule Cons.IH)
    then show ?thesis using Suc by (simp add: whites_def ktype_mk_key)
  qed
qed

text \<open>What the key at position \<open>j\<close> of a returned layout is.\<close>

lemma layout_nth:
  assumes "get_key_info s n = Inr ks" and "j < length ks"
  shows "ks ! j = mk_key s (int j) (int (length (filter (\<lambda>k. ktype k = ''white'') (take j ks))))"
proof -
  from assms(1) have ks: "ks = mk_keys s (py_range n) 0" by (simp add: get_key_info_Inr)
  with assms(2) have j: "j < nat n" by (simp add: length_mk_keys length_py_range)
  then have "ks ! j = mk_key s (int j) (int (whites s (take j (py_range n))))"
    unfolding ks by (simp add: mk_keys_nth length_py_range py_range_nth)
  then show ?thesis by (simp add: ks white_rank_mk_keys)
qed

lemma layout_length: "get_key_info s n = Inr ks \<Longrightarrow> length ks = nat n"
  using get_key_info_Inr [of s n ks] by (simp add: length_mk_keys length_py_range)

text \<open>
  A range of float notes need not return. No two black keys are adjacent and any three
  adjacent keys hold a black one, so a long range reaches a black key with so many white
  keys before it that its position does not convert to a float.
\<close>

lemma idx_cases:
  "note_in_octave_idx s i \<in> {0, 1, 2, 3, 4, 5, 6, 7, 8, 9, 10, 11}"
proof -
  define a where "a = note_in_octave_idx s i"
  have "0 \<le> a \<and> a < 12" unfolding a_def by (rule idx_range)
  then have "a = 0 \<or> a = 1 \<or> a = 2 \<or> a = 3 \<or> a = 4 \<or> a = 5 \<or> a = 6
      \<or> a = 7 \<or> a = 8 \<or> a = 9 \<or> a = 10 \<or> a = 11"
    by arith
  then show ?thesis unfolding a_def by simp
qed

lemma idx_next: "note_in_octave_idx s (i + 1) = (note_in_octave_idx s i + 1) mod 12"
proof -
  have "(s + (i + 1) - 21) mod 12 = ((s + i - 21) + 1) mod 12" by (simp add: algebra_simps)
  also have "\<dots> = ((s + i - 21) mod 12 + 1) mod 12" by (simp add: mod_add_left_eq)
  finally show ?thesis by (simp add: note_in_octave_idx_def)
qed

lemma white_after_black: "\<not> white_at s i \<Longrightarrow> white_at s (i + 1)"
  using idx_cases [of s i]
  by (auto simp add: white_at_def idx_next key_types_def)

lemma black_in_three:
  "white_at s i \<Longrightarrow> white_at s (i + 1) \<Longrightarrow> \<not> white_at s (i + 1 + 1)"
proof -
  have n1: "note_in_octave_idx s (i + 1) = (note_in_octave_idx s i + 1) mod 12"
    by (rule idx_next)
  have "note_in_octave_idx s (i + 1 + 1) = ((note_in_octave_idx s i + 1) mod 12 + 1) mod 12"
    by (simp only: idx_next)
  also have "\<dots> = (note_in_octave_idx s i + 1 + 1) mod 12"
    by (rule mod_add_left_eq)
  also have "\<dots> = (note_in_octave_idx s i + 2) mod 12"
    by (simp only: add.assoc one_add_one)
  finally have n2: "note_in_octave_idx s (i + 1 + 1) = (note_in_octave_idx s i + 2) mod 12" .
  show "white_at s i \<Longrightarrow> white_at s (i + 1) \<Longrightarrow> \<not> white_at s (i + 1 + 1)"
    unfolding white_at_def n1 n2
    using idx_cases [of s i] by (auto simp add: key_types_def)
qed

lemma py_range_add_two:
  "0 \<le> n \<Longrightarrow> py_range (n + 2) = py_range n @ [n, n + 1]"
proof -
  assume "0 \<le> n"
  then have "nat (n + 2) = Suc (Suc (nat n))" by simp
  then show ?thesis using \<open>0 \<le> n\<close> by (simp add: py_range_def)
qed

lemma whites_pairs: "k \<le> whites s (py_range (2 * int k))"
proof (induction k)
  case 0
  then show ?case by simp
next
  case (Suc k)
  have "py_range (2 * int (Suc k)) = py_range (2 * int k) @ [2 * int k, 2 * int k + 1]"
    using py_range_add_two [of "2 * int k"] by (simp add: algebra_simps)
  moreover have "1 \<le> whites s [2 * int k, 2 * int k + 1]"
    using white_after_black [of s "2 * int k"] by (auto simp add: whites_def)
  ultimately show ?case using Suc.IH by (simp add: whites_def)
qed

lemma whites_mono:
  assumes "0 \<le> a" and "a \<le> b"
  shows "whites s (py_range a) \<le> whites s (py_range b)"
proof -
  have "py_range a = take (nat a) (py_range b)"
    using assms take_py_range [of "nat a" b] by simp
  moreover have "length (filter P (take j xs)) \<le> length (filter P xs)"
    for P :: "int \<Rightarrow> bool" and j xs
  proof -
    have "length (filter P xs) = length (filter P (take j xs @ drop j xs))" by simp
    also have "\<dots> = length (filter P (take j xs)) + length (filter P (drop j xs))"
      by (simp only: filter_append length_append)
    finally show ?thesis by simp
  qed
  ultimately show ?thesis by (simp add: whites_def)
qed

lemma long_range_overflow:
  assumes "0 \<le> a" and "(2::int) ^ 1024 - 2 ^ 970 \<le> (a - 1) * KEY_WIDTH_PX"
  shows "\<not> black_keys_in_float_range s (2 * a + 3)"
proof -
  define p where "p = 2 * a"
  have "\<not> white_at s p \<or> \<not> white_at s (p + 1) \<or> \<not> white_at s (p + 1 + 1)"
    using black_in_three [of s p] by blast
  then obtain b where b: "\<not> white_at s b" and pb: "p \<le> b" and bn: "b < 2 * a + 3"
    unfolding p_def by (elim disjE) (fastforce+)
  have "nat a \<le> whites s (py_range (2 * int (nat a)))" by (rule whites_pairs)
  also have "2 * int (nat a) = p" using assms(1) by (simp add: p_def)
  also have "whites s (py_range p) \<le> whites s (py_range b)"
    using assms(1) pb by (intro whites_mono) (simp_all add: p_def)
  finally have "a \<le> int (whites s (py_range b))" using assms(1) by linarith
  then have "(a - 1) * KEY_WIDTH_PX \<le> (int (whites s (py_range b)) - 1) * KEY_WIDTH_PX"
    by (simp add: KEY_WIDTH_PX_def)
  with assms(2) have "\<not> (int (whites s (py_range b)) - 1) * KEY_WIDTH_PX < 2 ^ 1024 - 2 ^ 970"
    by linarith
  moreover have "b \<in> set (py_range (2 * a + 3))"
    using assms(1) pb bn by (simp add: set_py_range p_def)
  ultimately show ?thesis
    using b unfolding black_keys_in_float_range_def by blast
qed

lemma layout_overflow_many_white_keys:
  "notes_in_float_range (- (2 ^ 1022)) (2 ^ 1021 + 3)
   \<and> get_key_info (- (2 ^ 1022)) (2 ^ 1021 + 3) = Inl OverflowError"
proof -
  define a :: int where "a = 2 ^ 1020"
  define m :: int where "m = 2 ^ 1022"
  have n: "(2::int) ^ 1021 + 3 = 2 * a + 3" by (simp add: a_def)
  have "0 \<le> a" and "(2::int) ^ 1024 - 2 ^ 970 \<le> (a - 1) * KEY_WIDTH_PX"
    by (simp_all add: a_def KEY_WIDTH_PX_def)
  then have "\<not> black_keys_in_float_range (- m) (2 * a + 3)"
    by (rule long_range_overflow)
  then have nr: "\<not> layout_returns (- m) (2 * a + 3)"
    unfolding layout_returns_def by blast
  have "\<not> str_overflows ((- m + i) div 12 - 1)" if "i \<in> set (py_range (2 * a + 3))" for i
  proof -
    define q where "q = (- m + i) div 12"
    from that have "0 \<le> i" and "i < 2 * a + 3" by (simp_all add: set_py_range)
    moreover have "2 * a + 3 < m" by (simp add: a_def m_def)
    moreover have "12 * q \<le> - m + i" and "- m + i < 12 * q + 12"
      unfolding q_def
      using div_mult_mod_eq [of "- m + i" 12] pos_mod_bound [of 12 "- m + i"]
        pos_mod_sign [of 12 "- m + i"]
      by linarith+
    ultimately have "\<bar>q - 1\<bar> < 2 * m" by linarith
    moreover have "2 * m < 2 ^ 1030" by (simp add: m_def)
    ultimately have "\<bar>q - 1\<bar> < 2 ^ 1030" by (rule order.strict_trans)
    then show ?thesis unfolding q_def by (rule not_str_overflows)
  qed
  then have "\<forall>i \<in> set (py_range (2 * a + 3)). \<not> str_overflows ((- m + i) div 12 - 1)"
    by blast
  with nr have "get_key_info (- m) (2 * a + 3) = Inl OverflowError"
    by (rule get_key_info_overflow)
  then have "get_key_info (- (2 ^ 1022)) (2 ^ 1021 + 3) = Inl OverflowError"
    unfolding m_def n .
  moreover have "notes_in_float_range (- (2 ^ 1022)) (2 ^ 1021 + 3)"
    by (simp add: notes_in_float_range_def)
  ultimately show ?thesis by (rule conjI [rotated])
qed

section \<open>The voice map and the active marks\<close>

lemma map_get_None: "map_get m k = None \<longleftrightarrow> \<not> map_has m k"
  by (simp add: map_get_def map_has_def map_of_eq_None_iff)

lemma keys_map_set: "\<not> map_has m k \<Longrightarrow> map fst (map_set m k v) = map fst m @ [k]"
  by (simp add: map_set_def)

lemma keys_map_delete: "map fst (map_delete m k) = filter (\<lambda>k'. k' \<noteq> k) (map fst m)"
  by (induction m) (auto simp add: map_delete_def)

lemma map_has_delete: "map_has (map_delete m k) k' \<longleftrightarrow> k' \<noteq> k \<and> map_has m k'"
  by (auto simp add: map_has_def keys_map_delete)

lemma playNote_keys:
  "map fst (activeOscillators (state_of (playNote volume (Some k) s))) =
    (if map_has (activeOscillators s) k \<or> volume * sustainLevel = 0
     then map fst (activeOscillators s)
     else map fst (activeOscillators s) @ [k])"
  by (simp add: keys_map_set)

lemma playNote_has:
  "map_has (activeOscillators s) k \<Longrightarrow> playNote volume (Some k) s = Returned s"
  by simp

lemma playNote_thrown:
  "\<not> map_has (activeOscillators s) k \<Longrightarrow> volume * sustainLevel = 0 \<Longrightarrow>
    playNote volume (Some k) s = Thrown RangeError (s\<lparr>nodes := nodes s + 2\<rparr>)"
  by simp

lemma playNote_fresh:
  "\<not> map_has (activeOscillators s) k \<Longrightarrow> volume * sustainLevel \<noteq> 0 \<Longrightarrow>
    playNote volume (Some k) s =
      Returned (s\<lparr>nodes := nodes s + 2, started := started s @ [nodes s],
        activeOscillators :=
          map_set (activeOscillators s) k \<lparr>oscillator = nodes s, gainNode = nodes s + 1\<rparr>\<rparr>)"
  by simp

lemma playNote_returned:
  "volume * sustainLevel \<noteq> 0 \<Longrightarrow> \<exists>s'. playNote volume k s = Returned s'"
  by (cases k) simp_all

lemma playNote_other:
  "active (state_of (playNote volume k s)) = active s
   \<and> sustainEnabled (state_of (playNote volume k s)) = sustainEnabled s
   \<and> released (state_of (playNote volume k s)) = released s
   \<and> stopped (state_of (playNote volume k s)) = stopped s"
  by (cases k) simp_all

lemma stopNote_keys:
  "map fst (activeOscillators (stopNote (Some k) s)) =
    (if sustainEnabled s then map fst (activeOscillators s)
     else filter (\<lambda>k'. k' \<noteq> k) (map fst (activeOscillators s)))"
proof (cases "map_get (activeOscillators s) k")
  case None
  then have "k \<notin> set (map fst (activeOscillators s))"
    by (simp add: map_get_None map_has_def)
  then have "filter (\<lambda>k'. k' \<noteq> k) (map fst (activeOscillators s)) = map fst (activeOscillators s)"
    by (auto simp add: filter_id_conv)
  with None show ?thesis by simp
next
  case (Some v)
  then show ?thesis by (simp add: keys_map_delete)
qed

lemma stopNote_other:
  "active (stopNote k s) = active s \<and> sustainEnabled (stopNote k s) = sustainEnabled s
   \<and> released (stopNote k s) = released s \<and> nodes (stopNote k s) = nodes s
   \<and> started (stopNote k s) = started s"
  by (cases k) (simp_all split: option.splits)

declare playNote.simps [simp del] stopNote.simps [simp del]

lemma call_stopNote_keys:
  "map fst (activeOscillators (call_stopNote k s)) =
    (if sustainEnabled s then map fst (activeOscillators s)
     else filter (\<lambda>k'. k' \<noteq> k) (map fst (activeOscillators s)))"
  by (simp add: call_stopNote_def stopNote_keys)

lemma call_stopNote_other:
  "active (call_stopNote k s) = active s \<and> sustainEnabled (call_stopNote k s) = sustainEnabled s
   \<and> released (call_stopNote k s) = released s @ [k] \<and> nodes (call_stopNote k s) = nodes s
   \<and> started (call_stopNote k s) = started s"
  by (simp add: call_stopNote_def stopNote_other)

lemma classList_simps:
  "activeOscillators (classList_add k s) = activeOscillators s"
  "activeOscillators (classList_remove k s) = activeOscillators s"
  "sustainEnabled (classList_add k s) = sustainEnabled s"
  "sustainEnabled (classList_remove k s) = sustainEnabled s"
  "released (classList_add k s) = released s"
  "released (classList_remove k s) = released s"
  "active (classList_add k s) = insert k (active s)"
  "active (classList_remove k s) = active s - {k}"
  by (simp_all add: classList_add_def classList_remove_def)

text \<open>A press that returns marks the key; a press that throws changes only the node count.\<close>

lemma press_returned:
  "map_has (activeOscillators s) k \<or> volume * sustainLevel \<noteq> 0 \<Longrightarrow>
    press volume k s = classList_add k (state_of (playNote volume (Some k) s))
    \<and> map_has (activeOscillators (press volume k s)) k"
proof -
  assume a: "map_has (activeOscillators s) k \<or> volume * sustainLevel \<noteq> 0"
  then obtain s' where r: "playNote volume (Some k) s = Returned s'"
    using playNote_has [of s k volume] playNote_fresh [of s k volume] by blast
  have "map fst (activeOscillators s') = map fst (activeOscillators (state_of (playNote volume (Some k) s)))"
    by (simp add: r)
  with a have "k \<in> set (map fst (activeOscillators s'))"
    unfolding playNote_keys by (auto simp add: map_has_def)
  then show ?thesis by (simp add: press_def r classList_simps map_has_def)
qed

lemma press_thrown:
  "\<not> map_has (activeOscillators s) k \<Longrightarrow> volume * sustainLevel = 0 \<Longrightarrow>
    press volume k s = s\<lparr>nodes := nodes s + 2\<rparr>"
  by (simp add: press_def playNote_thrown)

lemma press_other:
  "sustainEnabled (press volume k s) = sustainEnabled s
   \<and> released (press volume k s) = released s \<and> stopped (press volume k s) = stopped s"
proof (cases "map_has (activeOscillators s) k \<or> volume * sustainLevel \<noteq> 0")
  case True
  then show ?thesis by (simp add: press_returned classList_simps playNote_other classList_add_def)
next
  case False
  then show ?thesis by (simp add: press_thrown)
qed

lemma consistent_init: "consistent init"
  by (simp add: consistent_def init_def)

lemma consistent_press: "consistent s \<Longrightarrow> consistent (press volume k s)"
proof (cases "map_has (activeOscillators s) k \<or> volume * sustainLevel \<noteq> 0")
  case True
  assume "consistent s"
  then show ?thesis
    unfolding consistent_def press_returned [OF True, THEN conjunct1] classList_simps playNote_keys
    using True by (auto simp add: playNote_other map_has_def)
next
  case False
  assume "consistent s"
  with False show ?thesis by (simp add: press_thrown consistent_def)
qed

lemma consistent_release:
  "consistent s \<Longrightarrow> \<not> sustainEnabled s \<Longrightarrow> consistent (classList_remove k (call_stopNote k s))"
  unfolding consistent_def classList_simps call_stopNote_keys
  by (auto simp add: call_stopNote_other)

lemma forEach_stop_flush:
  assumes "\<not> sustainEnabled s" and "distinct ks"
    and "set ks \<subseteq> set (map fst (activeOscillators s))"
  shows "map fst (activeOscillators (forEach_stop ks s)) =
           filter (\<lambda>k. k \<notin> set ks) (map fst (activeOscillators s))
         \<and> active (forEach_stop ks s) = active s - set ks
         \<and> released (forEach_stop ks s) = released s @ ks
         \<and> sustainEnabled (forEach_stop ks s) = False"
  using assms
proof (induction ks arbitrary: s)
  case Nil
  then show ?case by simp
next
  case (Cons k ks)
  let ?s = "classList_remove k (call_stopNote k s)"
  from Cons.prems have has: "map_has (activeOscillators s) k" by (simp add: map_has_def)
  have keys: "map fst (activeOscillators ?s) = filter (\<lambda>k'. k' \<noteq> k) (map fst (activeOscillators s))"
    using Cons.prems(1) by (simp add: classList_simps call_stopNote_keys)
  have sus: "\<not> sustainEnabled ?s"
    using Cons.prems(1) by (simp add: classList_simps call_stopNote_other)
  have sub: "set ks \<subseteq> set (map fst (activeOscillators ?s))"
    unfolding keys using Cons.prems(2,3) by auto
  have dis: "distinct ks" using Cons.prems(2) by simp
  note IH = Cons.IH [OF sus dis sub]
  have step: "forEach_stop (k # ks) s = forEach_stop ks ?s" using has by simp
  have flt: "filter (\<lambda>k'. k' \<notin> set ks) (filter (\<lambda>k'. k' \<noteq> k) xs) = filter (\<lambda>k'. k' \<notin> set (k # ks)) xs" for xs :: "elem list"
    by (induction xs) auto
  have "map fst (activeOscillators (forEach_stop ks ?s)) =
          filter (\<lambda>k'. k' \<notin> set (k # ks)) (map fst (activeOscillators s))"
    using IH unfolding keys flt by blast
  moreover have "active ?s = active s - {k}" and "released ?s = released s @ [k]"
    by (simp_all add: classList_simps call_stopNote_other)
  then have "active (forEach_stop ks ?s) = active s - set (k # ks)"
    and "released (forEach_stop ks ?s) = released s @ k # ks"
    using IH by auto
  moreover have "sustainEnabled (forEach_stop ks ?s) = False" using IH by blast
  ultimately show ?case unfolding step by blast
qed

lemma mousedown_press: "mousedown volume k s = press volume k s"
  by (simp add: mousedown_def press_def)

lemma keydown_press:
  "code ev \<noteq> ''Space'' \<Longrightarrow> keyMap (toLowerCase (ev_key ev)) = Some k \<Longrightarrow>
    keydown volume keyMap ev s = press volume k s"
  by (simp add: keydown_def press_def)

lemma consistent_dispatch: "consistent s \<Longrightarrow> consistent (dispatch volume km s e)"
proof (cases e)
  case (Mousedown k)
  assume "consistent s"
  then show ?thesis unfolding Mousedown by (simp add: mousedown_press consistent_press)
next
  case (Mouseup k)
  assume c: "consistent s"
  show ?thesis
  proof (cases "sustainEnabled s")
    case True
    with c show ?thesis unfolding Mouseup
      by (simp add: mouseup_def Let_def call_stopNote_other consistent_def call_stopNote_keys)
  next
    case False
    with c show ?thesis unfolding Mouseup
      by (simp add: mouseup_def Let_def call_stopNote_other consistent_release)
  qed
next
  case (Mouseleave k)
  assume c: "consistent s"
  show ?thesis
  proof (cases "sustainEnabled s")
    case True
    with c show ?thesis unfolding Mouseleave
      by (simp add: mouseup_def Let_def call_stopNote_other consistent_def call_stopNote_keys)
  next
    case False
    with c show ?thesis unfolding Mouseleave
      by (simp add: mouseup_def Let_def call_stopNote_other consistent_release)
  qed
next
  case (Keydown ev)
  assume c: "consistent s"
  show ?thesis
  proof (cases "code ev = ''Space''")
    case True
    with c show ?thesis unfolding Keydown by (simp add: keydown_def consistent_def)
  next
    case False
    show ?thesis
    proof (cases "km (toLowerCase (ev_key ev))")
      case None
      with c False show ?thesis unfolding Keydown by (simp add: keydown_def)
    next
      case (Some k)
      with c False show ?thesis unfolding Keydown
        by (simp add: keydown_press consistent_press)
    qed
  qed
next
  case (Keyup ev)
  assume c: "consistent s"
  show ?thesis
  proof (cases "code ev = ''Space''")
    case True
    let ?s = "s\<lparr>sustainEnabled := False\<rparr>"
    have "\<not> sustainEnabled ?s" by simp
    moreover have "distinct (map fst (activeOscillators ?s))" using c by (simp add: consistent_def)
    moreover have "set (map fst (activeOscillators ?s)) \<subseteq> set (map fst (activeOscillators ?s))" by simp
    ultimately have "map fst (activeOscillators (forEach_stop (map fst (activeOscillators ?s)) ?s)) =
           filter (\<lambda>k. k \<notin> set (map fst (activeOscillators ?s))) (map fst (activeOscillators ?s))
         \<and> active (forEach_stop (map fst (activeOscillators ?s)) ?s) = active ?s - set (map fst (activeOscillators ?s))"
      using forEach_stop_flush [of ?s "map fst (activeOscillators ?s)"] by blast
    then show ?thesis using c True unfolding Keyup
      by (simp add: keyup_def Let_def consistent_def)
  next
    case False
    with c show ?thesis unfolding Keyup
      by (simp add: keyup_def consistent_release split: option.splits)
  qed
qed

lemma consistent_run: "consistent s \<Longrightarrow> consistent (run volume km evs s)"
  unfolding run_def by (induction evs arbitrary: s) (simp_all add: consistent_dispatch)

section \<open>Properties of the layout\<close>

lemmas layout_eval = get_key_info_def py_range_def key_body_def note_in_octave_idx_def
  py_getitem_def key_types_def get_frequency_def true_div_overflows_def Let_def
  lookup_keyboard_key_def KEY_MAP_def KEY_WIDTH_PX_def KEY_HEIGHT_PX_def
  BLACK_KEY_WIDTH_RATIO_def BLACK_KEY_HEIGHT_RATIO_def str_int_def digit_char_def upt_rec
  int_to_float_def float_overflows_def py_str_below_limit

lemma layout_returns_slider:
  "notes_in_float_range s n \<Longrightarrow> n \<le> 12357 \<Longrightarrow>
    notes_in_float_range s n \<and> black_keys_in_float_range s n"
proof -
  assume r: "notes_in_float_range s n" and "n \<le> 12357"
  then have "n * KEY_WIDTH_PX \<le> 12357 * 40" by (simp add: KEY_WIDTH_PX_def)
  also have "(12357::int) * 40 \<le> 2 ^ 1024 - 2 ^ 970" by simp
  finally have "layout_returns s n" using r by (intro layout_returns_small)
  then show ?thesis by (simp add: layout_returns_def)
qed

lemma midi_note_mk_key: "midi_note (mk_key s i wc) = s + i"
  by (simp add: mk_key_def Let_def)

lemma x_position_mk_key:
  "x_position (mk_key s i wc) =
    (if white_at s i then real_of_int (wc * 40) else real_of_int ((wc - 1) * 40) + 12)"
  by (simp add: mk_key_def Let_def)

lemma lookup_bound:
  "i < 25 \<Longrightarrow> lookup_keyboard_key (int i) =
     Some ([''a'', ''w'', ''s'', ''e'', ''d'', ''f'', ''t'', ''g'', ''y'', ''h'', ''u'', ''j'',
            ''k'', ''o'', ''l'', ''p'', '';'', [CHR 0x27], ''z'', ''x'', ''c'', ''v'', ''b'',
            ''n'', ''m''] ! i)"
proof -
  assume "i < 25"
  then have "i \<in> set [0..<25]" by simp
  then show ?thesis
    unfolding lookup_keyboard_key_def KEY_MAP_def
    by (simp add: upt_rec) (elim disjE; simp)
qed

lemma lookup_unbound: "25 \<le> i \<Longrightarrow> lookup_keyboard_key (int i) = None"
  unfolding lookup_keyboard_key_def KEY_MAP_def by simp

text \<open>
  C1. Every note from \<open>12357\<close> on makes \<open>get_frequency\<close> raise OverflowError
  (\<open>(12357 - 69) / 12\<close> is \<open>1024.0\<close> and \<open>2 ** 1024.0\<close> is not a double), and
  \<open>get_key_info\<close> computes the frequency of every key: on the start note \<open>12357\<close> a
  layout of one key is an error, not a sequence of one descriptor.
\<close>

theorem layout_overflow_12357: "get_key_info 12357 1 = Inl OverflowError"
  by (simp add: layout_eval)

text \<open>
  C1, amended. When \<open>num_keys\<close> is below 1, or every note of the range is one on which
  \<open>get_frequency\<close> returns (the start note above \<open>69 - 12 * (2^1024 - 2^970)\<close> and the
  last note below \<open>12357\<close>) and for every black key of the range the integer
  \<open>(white_key_count - 1) * KEY_WIDTH_PX\<close> of its position converts to a float (it is below
  \<open>2^1024 - 2^970\<close>), \<open>get_key_info\<close> returns a list of \<open>max 0 num_keys\<close> keys;
  the key at position \<open>i\<close> has the note \<open>start_midi_note + i\<close>, so the notes ascend
  strictly; the \<open>x\<close> of every white key is the number of white keys before it in the
  list times \<open>KEY_WIDTH_PX\<close>; and for \<open>num_keys\<close> below 1 the list is empty.
\<close>

theorem layout_shape:
  assumes "notes_in_float_range start_midi_note num_keys"
    and "black_keys_in_float_range start_midi_note num_keys"
  shows "\<exists>ks. get_key_info start_midi_note num_keys = Inr ks
    \<and> int (length ks) = max 0 num_keys
    \<and> (\<forall>i < length ks. midi_note (ks ! i) = start_midi_note + int i)
    \<and> (\<forall>i j. i < j \<and> j < length ks \<longrightarrow> midi_note (ks ! i) < midi_note (ks ! j))
    \<and> (\<forall>i < length ks. ktype (ks ! i) = ''white'' \<longrightarrow>
          x_position (ks ! i) =
            real (length (filter (\<lambda>k. ktype k = ''white'') (take i ks))) * real_of_int KEY_WIDTH_PX)
    \<and> (num_keys < 1 \<longrightarrow> ks = [])"
proof -
  let ?ks = "mk_keys start_midi_note (py_range num_keys) 0"
  have h: "get_key_info start_midi_note num_keys = Inr ?ks"
    using assms by (intro get_key_info_defined) (simp add: layout_returns_def)
  have len: "length ?ks = nat num_keys" using h by (rule layout_length)
  have nth: "?ks ! i = mk_key start_midi_note (int i)
                (int (length (filter (\<lambda>k. ktype k = ''white'') (take i ?ks))))"
    if "i < length ?ks" for i
    using h that by (rule layout_nth)
  have mn: "midi_note (?ks ! i) = start_midi_note + int i" if "i < length ?ks" for i
    using nth [OF that] by (simp add: midi_note_mk_key)
  have asc: "midi_note (?ks ! i) < midi_note (?ks ! j)" if "i < j \<and> j < length ?ks" for i j
    using that mn [of i] mn [of j] by simp
  have xw: "x_position (?ks ! i) =
      real (length (filter (\<lambda>k. ktype k = ''white'') (take i ?ks))) * real_of_int KEY_WIDTH_PX"
    if "i < length ?ks" and w: "ktype (?ks ! i) = ''white''" for i
  proof -
    let ?wc = "int (length (filter (\<lambda>k. ktype k = ''white'') (take i ?ks)))"
    have eq: "?ks ! i = mk_key start_midi_note (int i) ?wc" using that(1) by (rule nth)
    have "white_at start_midi_note (int i)"
      using ktype_mk_key [of start_midi_note "int i" ?wc] w eq by simp
    then have "x_position (mk_key start_midi_note (int i) ?wc) = real_of_int (?wc * 40)"
      by (simp add: x_position_mk_key)
    then show ?thesis using eq by (simp add: KEY_WIDTH_PX_def)
  qed
  have emp: "?ks = []" if "num_keys < 1"
    using that len by simp
  have "int (length ?ks) = max 0 num_keys" using len by simp
  with h mn asc xw emp show ?thesis by blast
qed

theorem layout_shape_witness:
  "notes_in_float_range 60 3 \<and> black_keys_in_float_range 60 3
   \<and> notes_in_float_range 60 0 \<and> black_keys_in_float_range 60 0
   \<and> get_key_info 60 0 = Inr []
   \<and> (\<exists>ks. get_key_info 60 3 = Inr ks \<and> length ks = 3
        \<and> map midi_note ks = [60, 61, 62]
        \<and> map ktype ks = [''black'', ''white'', ''white'']
        \<and> x_position (ks ! 1) = 0 \<and> x_position (ks ! 2) = 40)"
proof -
  have r3: "notes_in_float_range 60 3" and r0: "notes_in_float_range 60 0"
    by (simp_all add: notes_in_float_range_def)
  have b3: "black_keys_in_float_range 60 3" and b0: "black_keys_in_float_range 60 0"
    using layout_returns_slider [OF r3] layout_returns_slider [OF r0] by simp_all
  obtain ks where h: "get_key_info 60 3 = Inr ks" and l: "int (length ks) = max 0 3"
    and n: "\<forall>i < length ks. midi_note (ks ! i) = 60 + int i"
    and x: "\<forall>i < length ks. ktype (ks ! i) = ''white'' \<longrightarrow>
          x_position (ks ! i) =
            real (length (filter (\<lambda>k. ktype k = ''white'') (take i ks))) * real_of_int KEY_WIDTH_PX"
    using layout_shape [OF r3 b3] by blast
  obtain ks0 where h0: "get_key_info 60 0 = Inr ks0" and e0: "(0::int) < 1 \<longrightarrow> ks0 = []"
    using layout_shape [OF r0 b0] by blast
  have "get_key_info 60 3 = Inr ks \<and> length ks = 3
        \<and> map midi_note ks = [60, 61, 62]
        \<and> map ktype ks = [''black'', ''white'', ''white'']
        \<and> x_position (ks ! 1) = 0 \<and> x_position (ks ! 2) = 40"
    using h by (simp add: layout_eval) auto
  with r3 r0 b3 b0 h0 e0 show ?thesis by auto
qed

text \<open>
  C2. In every layout returned, the label of a key is non-empty exactly when the semitone
  class \<open>(note - 21) mod 12\<close> of its note is 0; a key of class 0 is white and its label is
  \<open>C\<close> followed by the decimal form of \<open>note div 12 - 1\<close>; a key of any other class has
  the empty label.
\<close>

theorem label_iff_class_zero:
  assumes "get_key_info s n = Inr ks" and "i < length ks"
  shows "(label (ks ! i) \<noteq> [] \<longleftrightarrow> (midi_note (ks ! i) - 21) mod 12 = 0)
    \<and> ((midi_note (ks ! i) - 21) mod 12 = 0 \<longrightarrow>
          ktype (ks ! i) = ''white''
          \<and> label (ks ! i) = CHR ''C'' # str_int (midi_note (ks ! i) div 12 - 1))
    \<and> ((midi_note (ks ! i) - 21) mod 12 \<noteq> 0 \<longrightarrow> label (ks ! i) = [])"
proof -
  obtain wc where k: "ks ! i = mk_key s (int i) wc"
    using layout_nth [OF assms] by blast
  show ?thesis
    unfolding k by (simp add: mk_key_def note_in_octave_idx_def key_types_def Let_def)
qed

theorem label_iff_class_zero_witness:
  "\<exists>ks. get_key_info 32 3 = Inr ks \<and> 1 < length ks
     \<and> (midi_note (ks ! 1) - 21) mod 12 = 0
     \<and> ktype (ks ! 1) = ''white'' \<and> label (ks ! 1) = ''C1'' \<and> label (ks ! 1) \<noteq> []
     \<and> (midi_note (ks ! 2) - 21) mod 12 \<noteq> 0 \<and> label (ks ! 2) = []"
proof -
  obtain ks where h: "get_key_info 32 3 = Inr ks" and l1: "1 < length ks" and l2: "2 < length ks"
    and m: "midi_note (ks ! 1) = 33" "midi_note (ks ! 2) = 34"
    by (simp add: layout_eval)
  have "str_int (33 div 12 - 1) = ''1''" by (simp add: str_int_def digit_char_def)
  then show ?thesis
    using label_iff_class_zero [OF h l1] label_iff_class_zero [OF h l2] h l1 m by auto
qed

text \<open>
  C7. In every layout returned, the key at position \<open>i\<close> is bound to the \<open>i\<close>-th
  identifier of the table \<open>a w s e d f t g y h u j k o l p ; ' z x c v b n m\<close> when \<open>i\<close> is
  below 25, whatever its note, and to no identifier from position 25 on.
\<close>

theorem trigger_key_by_position:
  assumes "get_key_info s n = Inr ks" and "i < length ks"
  shows "keyboard_key (ks ! i) =
    (if i < 25
     then Some ([''a'', ''w'', ''s'', ''e'', ''d'', ''f'', ''t'', ''g'', ''y'', ''h'', ''u'', ''j'',
            ''k'', ''o'', ''l'', ''p'', '';'', [CHR 0x27], ''z'', ''x'', ''c'', ''v'', ''b'',
            ''n'', ''m''] ! i)
     else None)"
proof -
  obtain wc where k: "ks ! i = mk_key s (int i) wc"
    using layout_nth [OF assms] by blast
  have "keyboard_key (ks ! i) = lookup_keyboard_key (int i)"
    unfolding k by (simp add: mk_key_def Let_def)
  then show ?thesis by (simp add: lookup_bound lookup_unbound)
qed

theorem trigger_key_by_position_witness:
  "\<exists>ks. get_key_info 60 26 = Inr ks \<and> 25 < length ks
     \<and> keyboard_key (ks ! 0) = Some ''a'' \<and> keyboard_key (ks ! 17) = Some [CHR 0x27]
     \<and> keyboard_key (ks ! 24) = Some ''m'' \<and> keyboard_key (ks ! 25) = None"
proof -
  have "notes_in_float_range 60 26" by (simp add: notes_in_float_range_def)
  then have "layout_returns 60 26"
    using layout_returns_slider [of 60 26] by (simp add: layout_returns_def)
  then obtain ks where h: "get_key_info 60 26 = Inr ks"
    by (simp add: get_key_info_defined)
  then have "length ks = 26" by (simp add: layout_length)
  then have l: "0 < length ks" "17 < length ks" "24 < length ks" "25 < length ks"
    by simp_all
  show ?thesis
    using h l trigger_key_by_position [OF h l(1)] trigger_key_by_position [OF h l(2)]
      trigger_key_by_position [OF h l(3)] trigger_key_by_position [OF h l(4)]
    by simp
qed

text \<open>
  C8. For every start note, also one below 21, and every position \<open>i\<close>, the semitone class
  \<open>(start_midi_note + i - 21) mod 12\<close> lies between 0 and 11, the floor of the division
  being taken; the access to the twelve entries of \<open>key_types\<close> returns the entry at that
  index, and \<open>get_key_info\<close> never raises IndexError: it returns, or it raises the
  OverflowError of a float operation or the ValueError of the label format.
\<close>

theorem semitone_index_in_table:
  "0 \<le> note_in_octave_idx start_midi_note i
   \<and> note_in_octave_idx start_midi_note i < 12
   \<and> int (length key_types) = 12
   \<and> py_getitem key_types (note_in_octave_idx start_midi_note i)
       = Inr (key_types ! nat (note_in_octave_idx start_midi_note i))
   \<and> (get_key_info start_midi_note num_keys = Inl OverflowError
        \<or> get_key_info start_midi_note num_keys = Inl ValueError
        \<or> (\<exists>ks. get_key_info start_midi_note num_keys = Inr ks))"
proof -
  have "get_key_info start_midi_note num_keys = Inl OverflowError
        \<or> get_key_info start_midi_note num_keys = Inl ValueError
        \<or> (\<exists>ks. get_key_info start_midi_note num_keys = Inr ks)"
    using get_key_info_undefined [of start_midi_note num_keys]
      get_key_info_defined [of start_midi_note num_keys]
    by (cases "layout_returns start_midi_note num_keys") blast+
  moreover have "int (length key_types) = 12" by (simp add: key_types_def)
  ultimately show ?thesis
    using idx_range [of start_midi_note i] getitem_key_types [of start_midi_note i] by simp
qed




lemma first_key:
  assumes "get_key_info s n = Inr ks" and "1 \<le> n"
  shows "ks \<noteq> [] \<and> ks ! 0 = mk_key s 0 0"
proof -
  have "length ks = nat n" using assms(1) by (rule layout_length)
  with assms(2) have l: "0 < length ks" by simp
  have "ks ! 0 = mk_key s (int 0) (int (length (filter (\<lambda>k. ktype k = ''white'') (take 0 ks))))"
    using assms(1) l by (rule layout_nth)
  with l show ?thesis by simp
qed

lemma ktype_black_class:
  "note_in_octave_idx s i \<in> {1, 3, 6, 8, 10} \<Longrightarrow>
     ktype (mk_key s i wc) = ''black'' \<and> \<not> white_at s i"
  by (auto simp add: mk_key_def white_at_def key_types_def Let_def)

lemma class_nine_aux: "0 \<le> r \<Longrightarrow> r < 12 \<Longrightarrow> ((r::int) + 3) mod 12 = 0 \<longleftrightarrow> r = 9"
proof (cases "r < 9")
  case True
  assume "0 \<le> r"
  with True have "(r + 3) mod 12 = r + 3" by (simp add: mod_pos_pos_trivial)
  with True \<open>0 \<le> r\<close> show ?thesis by simp
next
  case False
  assume "r < 12"
  have "r + 3 = r - 9 + 12" by arith
  then have "(r + 3) mod 12 = (r - 9 + 12) mod 12" by (rule arg_cong)
  also have "\<dots> = (r - 9) mod 12" by (simp only: mod_add_self2)
  also have "\<dots> = r - 9" using False \<open>r < 12\<close> by (simp add: mod_pos_pos_trivial)
  finally show ?thesis by simp
qed

lemma class_nine: "((a::int) - 21) mod 12 = 0 \<longleftrightarrow> a mod 12 = 9"
proof -
  have "(a - 21) mod 12 = (a + 3 - 2 * 12) mod 12" by simp
  also have "\<dots> = (a + 3) mod 12" by (simp only: mod_diff_right_eq [symmetric, of "a + 3" "2 * 12" 12]) simp
  finally have e: "(a - 21) mod 12 = (a mod 12 + 3) mod 12" by (simp add: mod_add_left_eq)
  have "0 \<le> a mod 12" and "a mod 12 < 12" by simp_all
  then have "(a mod 12 + 3) mod 12 = 0 \<longleftrightarrow> a mod 12 = 9"
    by (rule class_nine_aux)
  with e show ?thesis by simp
qed

text \<open>
  C9. The start note \<open>12358\<close> has the semitone class 1, a black entry of the table, and
  a layout of one key from it is an OverflowError of \<open>get_frequency\<close>: there is no first
  descriptor.
\<close>

theorem black_start_overflow_12358:
  "(12358 - 21) mod 12 = (1::int) \<and> get_key_info 12358 1 = Inl OverflowError"
  by (simp add: layout_eval)

text \<open>
  C9, amended. For every start note whose semitone class \<open>(start_midi_note - 21) mod 12\<close>
  is 1, 3, 6, 8 or 10 and every \<open>num_keys\<close> of at least 1, when \<open>get_frequency\<close> returns
  on every note of the range and the position of every black key of the range converts to
  a float, \<open>get_key_info\<close> returns a list whose first key is black and
  has the negative \<open>x\<close> of \<open>-KEY_WIDTH_PX + KEY_WIDTH_PX * 0.6 - (KEY_WIDTH_PX * 0.6) / 2\<close>,
  which is \<open>-0.7 * KEY_WIDTH_PX\<close>, that is \<open>-28\<close>: the position formula of a black key
  takes \<open>white_key_count - 1\<close> while no white key is counted yet.
\<close>

theorem first_black_key_left_of_surface:
  assumes "(start_midi_note - 21) mod 12 \<in> {1, 3, 6, 8, 10}" and "1 \<le> num_keys"
    and "notes_in_float_range start_midi_note num_keys"
    and "black_keys_in_float_range start_midi_note num_keys"
  shows "\<exists>ks. get_key_info start_midi_note num_keys = Inr ks \<and> ks \<noteq> []
    \<and> ktype (ks ! 0) = ''black''
    \<and> x_position (ks ! 0) =
        - real_of_int KEY_WIDTH_PX + real_of_int KEY_WIDTH_PX * (6 / 10)
          - (real_of_int KEY_WIDTH_PX * (6 / 10)) / 2
    \<and> x_position (ks ! 0) = - (7 / 10) * real_of_int KEY_WIDTH_PX
    \<and> x_position (ks ! 0) = - 28
    \<and> x_position (ks ! 0) < 0"
proof -
  let ?ks = "mk_keys start_midi_note (py_range num_keys) 0"
  have h: "get_key_info start_midi_note num_keys = Inr ?ks"
    using assms(3,4) by (intro get_key_info_defined) (simp add: layout_returns_def)
  have f: "?ks \<noteq> [] \<and> ?ks ! 0 = mk_key start_midi_note 0 0"
    using h assms(2) by (rule first_key)
  have c: "note_in_octave_idx start_midi_note 0 \<in> {1, 3, 6, 8, 10}"
    using assms(1) by (simp add: note_in_octave_idx_def)
  have b: "ktype (mk_key start_midi_note 0 0) = ''black'' \<and> \<not> white_at start_midi_note 0"
    using c by (rule ktype_black_class)
  then have "x_position (mk_key start_midi_note 0 0) = - 28"
    by (simp add: x_position_mk_key)
  with h f b show ?thesis by (simp add: KEY_WIDTH_PX_def)
qed

theorem first_black_key_left_of_surface_witness:
  "(60 - 21) mod 12 \<in> {1, 3, 6, 8, 10 :: int} \<and> (1::int) \<le> 24 \<and> notes_in_float_range 60 24
   \<and> black_keys_in_float_range 60 24
   \<and> (\<exists>ks. get_key_info 60 24 = Inr ks \<and> ks \<noteq> [] \<and> ktype (ks ! 0) = ''black''
        \<and> x_position (ks ! 0) = - 28 \<and> x_position (ks ! 0) < 0)"
proof -
  have a: "(60 - 21) mod 12 \<in> {1, 3, 6, 8, 10 :: int}" and b: "(1::int) \<le> 24"
    and c: "notes_in_float_range 60 24"
    by (simp_all add: notes_in_float_range_def)
  have d: "black_keys_in_float_range 60 24"
    using layout_returns_slider [OF c] by simp
  show ?thesis
    using first_black_key_left_of_surface [OF a b c d] a b c d by blast
qed

text \<open>
  C10. From the start note 60 a layout of \<open>12298\<close> keys reaches the note \<open>12357\<close>, on
  which \<open>get_frequency\<close> raises OverflowError: the call yields no first key.
\<close>

theorem middle_c_overflow_12298: "get_key_info 60 12298 = Inl OverflowError"
proof -
  have "\<not> notes_in_float_range 60 12298" by (simp add: notes_in_float_range_def)
  then have "\<not> layout_returns 60 12298" by (simp add: layout_returns_def)
  moreover have "\<not> str_overflows ((60 + i) div 12 - 1)" if "i \<in> set (py_range 12298)" for i
  proof -
    define q where "q = (60 + i) div 12"
    from that have "0 \<le> i" and "i < 12298" by (simp_all add: set_py_range)
    moreover have "12 * q \<le> 60 + i" and "60 + i < 12 * q + 12"
      unfolding q_def
      using div_mult_mod_eq [of "60 + i" 12] pos_mod_bound [of 12 "60 + i"]
        pos_mod_sign [of 12 "60 + i"]
      by linarith+
    ultimately have "\<bar>q - 1\<bar> < 12358" by linarith
    moreover have "(12358::int) < 2 ^ 1030" by simp
    ultimately have "\<bar>q - 1\<bar> < 2 ^ 1030" by (rule order.strict_trans)
    then show ?thesis unfolding q_def by (rule not_str_overflows)
  qed
  ultimately show ?thesis by (intro get_key_info_overflow) simp_all
qed

text \<open>
  C10, amended. In every layout returned, a key has a non-empty label exactly when its note
  is congruent to 9 modulo 12 (the pitch class of A, the class-0 anchor being the note 21
  while the table starts at C); and for every \<open>m\<close> from 1 to \<open>12297\<close> the layout of
  \<open>m\<close> keys from the note 60 is returned and its first key is the note 60 with the type
  black, \<open>(60 - 21) mod 12 = 3\<close> selecting a black entry of the table.
\<close>

theorem label_marks_pitch_class_nine:
  "(\<forall>ks i. get_key_info s n = Inr ks \<and> i < length ks \<longrightarrow>
      (label (ks ! i) \<noteq> [] \<longleftrightarrow> midi_note (ks ! i) mod 12 = 9))
   \<and> note_in_octave_idx 60 0 = 3 \<and> key_types ! 3 = (''black'', False)
   \<and> (1 \<le> m \<and> m \<le> 12297 \<longrightarrow>
        (\<exists>ks. get_key_info 60 m = Inr ks \<and> ks \<noteq> []
           \<and> midi_note (ks ! 0) = 60 \<and> ktype (ks ! 0) = ''black''))"
proof -
  have lab: "label (ks ! i) \<noteq> [] \<longleftrightarrow> midi_note (ks ! i) mod 12 = 9"
    if "get_key_info s n = Inr ks \<and> i < length ks" for ks i
  proof -
    from that have "get_key_info s n = Inr ks" and "i < length ks" by simp_all
    then obtain wc where k: "ks ! i = mk_key s (int i) wc"
      using layout_nth [of s n ks i] by blast
    have "(s + int i - 21) mod 12 = 0 \<longleftrightarrow> (s + int i) mod 12 = 9"
      by (rule class_nine)
    then show ?thesis
      unfolding k by (simp add: mk_key_def note_in_octave_idx_def Let_def)
  qed
  have mc: "\<exists>ks. get_key_info 60 m = Inr ks \<and> ks \<noteq> []
           \<and> midi_note (ks ! 0) = 60 \<and> ktype (ks ! 0) = ''black''"
    if "1 \<le> m \<and> m \<le> 12297"
  proof -
    have "notes_in_float_range 60 m" using that by (simp add: notes_in_float_range_def)
    then have "layout_returns 60 m"
      using that layout_returns_slider [of 60 m] by (simp add: layout_returns_def)
    then have h: "get_key_info 60 m = Inr (mk_keys 60 (py_range m) 0)"
      by (rule get_key_info_defined)
    have f: "mk_keys 60 (py_range m) 0 \<noteq> [] \<and> mk_keys 60 (py_range m) 0 ! 0 = mk_key 60 0 0"
      using h that by (simp add: first_key)
    have "note_in_octave_idx 60 0 \<in> {1, 3, 6, 8, 10}" by (simp add: note_in_octave_idx_def)
    then have "ktype (mk_key 60 0 0) = ''black''" by (simp add: ktype_black_class)
    with h f show ?thesis by (simp add: midi_note_mk_key)
  qed
  have "note_in_octave_idx 60 0 = 3" and "key_types ! 3 = (''black'', False)"
    by (simp_all add: note_in_octave_idx_def key_types_def)
  with lab mc show ?thesis by blast
qed

theorem label_marks_pitch_class_nine_witness:
  "(\<exists>ks. get_key_info 32 3 = Inr ks \<and> 1 < length ks
      \<and> midi_note (ks ! 1) = 33 \<and> (33::int) mod 12 = 9 \<and> label (ks ! 1) \<noteq> []
      \<and> midi_note (ks ! 2) = 34 \<and> label (ks ! 2) = [])
   \<and> (1::int) \<le> 24 \<and> (24::int) \<le> 12297
   \<and> (\<exists>ks. get_key_info 60 24 = Inr ks \<and> ks \<noteq> []
           \<and> midi_note (ks ! 0) = 60 \<and> ktype (ks ! 0) = ''black'')"
proof -
  obtain ks where h: "get_key_info 32 3 = Inr ks" and l: "1 < length ks" "2 < length ks"
    and m: "midi_note (ks ! 1) = 33" "midi_note (ks ! 2) = 34"
    by (simp add: layout_eval)
  have a: "label (ks ! 1) \<noteq> [] \<longleftrightarrow> midi_note (ks ! 1) mod 12 = 9"
    and b: "label (ks ! 2) \<noteq> [] \<longleftrightarrow> midi_note (ks ! 2) mod 12 = 9"
    using label_marks_pitch_class_nine [of 32 3 24] h l by blast+
  have c: "\<exists>ks. get_key_info 60 24 = Inr ks \<and> ks \<noteq> []
           \<and> midi_note (ks ! 0) = 60 \<and> ktype (ks ! 0) = ''black''"
    using label_marks_pitch_class_nine [of 32 3 24] by simp
  have "label (ks ! 1) \<noteq> []" and "label (ks ! 2) = []"
    using a b m by simp_all
  with h l m c show ?thesis by auto
qed

section \<open>Properties of the voice engine and of the key handlers\<close>

lemmas script_eval = run_def keydown_def keyup_def mousedown_def mouseup_def
  kelvin_sign_def lower_char_def init_def classList_add_def
  classList_remove_def call_stopNote_def map_has_def map_get_def map_set_def map_delete_def
  playNote.simps stopNote.simps sustainLevel_def Let_def

text \<open>The identifiers that the page of the layout \<open>get_key_info 60 3\<close> gives its three keys.\<close>

lemma page_keys_60_3:
  "\<exists>ks. get_key_info 60 3 = Inr ks \<and> map data_keyboard_key ks = [''a'', ''w'', ''s'']"
  by (simp add: layout_eval data_keyboard_key_def)

lemma keyMap_60_3:
  "build_keyMap [''a'', ''w'', ''s''] = [''a'' \<mapsto> 0, ''w'' \<mapsto> 1, ''s'' \<mapsto> 2]"
  by (simp add: build_keyMap_def upt_rec numeral_2_eq_2)

lemma ramp_target_zero: "volume * sustainLevel = 0 \<longleftrightarrow> volume = 0"
  by (simp add: sustainLevel_def)

text \<open>
  In every state that the page reaches from its initial state, at any volume, the voice
  map holds at most one voice per key element, and \<open>playNote\<close> on a key that has a voice
  returns with the state unchanged.
\<close>

lemma one_voice_per_key:
  "distinct (map fst (activeOscillators (run volume keyMap evs init)))
   \<and> (map_has (activeOscillators s) d \<longrightarrow> playNote volume (Some d) s = Returned s)"
proof -
  have "consistent (run volume keyMap evs init)"
    using consistent_init by (rule consistent_run)
  then have "distinct (map fst (activeOscillators (run volume keyMap evs init)))"
    by (simp add: consistent_def)
  then show ?thesis by (simp add: playNote_has)
qed

text \<open>
  With a volume other than 0, playing a key twice is playing it once: from a state where
  the key has no voice the two calls create one oscillator and one gain node, start that
  oscillator and add one entry to the map.
\<close>

lemma press_twice_when_audible:
  assumes "volume \<noteq> 0" and "\<not> map_has (activeOscillators s) d"
  shows "\<exists>s'. playNote volume (Some d) s = Returned s'
    \<and> playNote volume (Some d) s' = Returned s'
    \<and> activeOscillators s' =
         activeOscillators s @ [(d, \<lparr>oscillator = nodes s, gainNode = nodes s + 1\<rparr>)]
    \<and> started s' = started s @ [nodes s]
    \<and> nodes s' = nodes s + 2"
proof -
  let ?s = "s\<lparr>nodes := nodes s + 2, started := started s @ [nodes s],
        activeOscillators :=
          map_set (activeOscillators s) d \<lparr>oscillator = nodes s, gainNode = nodes s + 1\<rparr>\<rparr>"
  have nz: "volume * sustainLevel \<noteq> 0"
    using assms(1) ramp_target_zero [of volume] by blast
  have r: "playNote volume (Some d) s = Returned ?s"
    using assms(2) nz by (rule playNote_fresh)
  have m: "activeOscillators ?s =
      activeOscillators s @ [(d, \<lparr>oscillator = nodes s, gainNode = nodes s + 1\<rparr>)]"
    using assms(2) by (simp add: map_set_def)
  then have "map_has (activeOscillators ?s) d" by (simp add: map_has_def)
  then have "playNote volume (Some d) ?s = Returned ?s" by (rule playNote_has)
  with r m show ?thesis by simp
qed

text \<open>
  C4. The volume slider goes down to 0.0. On a page with the volume 0, \<open>playNote\<close> throws
  at the exponential ramp, whose target \<open>volume * sustainLevel\<close> is 0, before it stores the
  voice: a key held down, with its repeated key-down events, gets no voice at all and no
  active mark, and every repetition creates two more audio nodes. The first press is no
  creation of a voice and the second is no no-op.
\<close>

theorem press_twice_at_volume_zero:
  "playNote 0 (Some 0) init = Thrown RangeError (init\<lparr>nodes := 2\<rparr>)
   \<and> run 0 [''a'' \<mapsto> 0]
        [Keydown \<lparr>code = ''KeyA'', ev_key = ''a''\<rparr>] init
      = init\<lparr>nodes := 2\<rparr>
   \<and> run 0 [''a'' \<mapsto> 0]
        [Keydown \<lparr>code = ''KeyA'', ev_key = ''a''\<rparr>,
         Keydown \<lparr>code = ''KeyA'', ev_key = ''a''\<rparr>] init
      = init\<lparr>nodes := 4\<rparr>
   \<and> activeOscillators (init\<lparr>nodes := 4\<rparr>) = []
   \<and> active (init\<lparr>nodes := 4\<rparr>) = {}"
  by (simp add: script_eval)

text \<open>
  C5. With the space bar held, a mouse press on the first key gives it a voice, and
  \<open>stopNote\<close> on that key leaves the voice in the map: the body of \<open>stopNote\<close> is
  guarded by \<open>!sustainEnabled\<close>.
\<close>

theorem release_kept_under_sustain:
  "sustainEnabled (run (1 / 2) Map.empty
      [Keydown \<lparr>code = ''Space'', ev_key = '' ''\<rparr>, Mousedown 0] init)
   \<and> map_has (activeOscillators (run (1 / 2) Map.empty
        [Keydown \<lparr>code = ''Space'', ev_key = '' ''\<rparr>, Mousedown 0] init)) 0
   \<and> map_has (activeOscillators (stopNote (Some 0) (run (1 / 2) Map.empty
        [Keydown \<lparr>code = ''Space'', ev_key = '' ''\<rparr>, Mousedown 0] init))) 0"
  by (simp add: script_eval)

text \<open>
  C5, amended. \<open>stopNote\<close> changes nothing when the key has no voice, and nothing while
  sustain is enabled. When the key has a voice and sustain is not enabled, \<open>stopNote\<close>
  schedules the stop of the oscillator and removes the key from the voice map before it
  returns; so with sustain not enabled, after \<open>playNote\<close> and \<open>stopNote\<close> on a key the map
  does not contain the key, at any volume.
\<close>

theorem release_removes_voice:
  "(\<not> map_has (activeOscillators s) d \<longrightarrow> stopNote (Some d) s = s)
   \<and> (sustainEnabled s \<longrightarrow> stopNote (Some d) s = s)
   \<and> (map_has (activeOscillators s) d \<and> \<not> sustainEnabled s \<longrightarrow>
        \<not> map_has (activeOscillators (stopNote (Some d) s)) d
        \<and> (\<exists>v. map_get (activeOscillators s) d = Some v
              \<and> stopped (stopNote (Some d) s) = stopped s @ [oscillator v]))
   \<and> (\<not> sustainEnabled s \<longrightarrow>
        \<not> map_has (activeOscillators
             (stopNote (Some d) (state_of (playNote volume (Some d) s)))) d)"
proof -
  have a: "stopNote (Some d) s = s" if "\<not> map_has (activeOscillators s) d"
    using that by (simp add: stopNote.simps map_get_None [symmetric])
  have b: "stopNote (Some d) s = s" if "sustainEnabled s"
    using that by (simp add: stopNote.simps split: option.splits)
  have gone: "\<not> map_has (activeOscillators (stopNote (Some d) t)) d" if "\<not> sustainEnabled t" for t
    using that unfolding map_has_def stopNote_keys by simp
  have c: "\<exists>v. map_get (activeOscillators s) d = Some v
              \<and> stopped (stopNote (Some d) s) = stopped s @ [oscillator v]"
    if "map_has (activeOscillators s) d \<and> \<not> sustainEnabled s"
  proof -
    from that have "map_get (activeOscillators s) d \<noteq> None" by (simp add: map_get_None)
    then obtain v where "map_get (activeOscillators s) d = Some v" by blast
    with that show ?thesis by (simp add: stopNote.simps)
  qed
  have d: "\<not> map_has (activeOscillators
             (stopNote (Some d) (state_of (playNote volume (Some d) s)))) d"
    if "\<not> sustainEnabled s"
    using that by (simp add: gone playNote_other)
  from a b c d gone show ?thesis by blast
qed

theorem release_removes_voice_witness:
  "\<not> map_has (activeOscillators init) 0 \<and> stopNote (Some 0) init = init
   \<and> playNote (1 / 2) (Some 0) init =
       Returned (init\<lparr>nodes := 2, started := [0],
         activeOscillators := [(0, \<lparr>oscillator = 0, gainNode = 1\<rparr>)]\<rparr>)
   \<and> \<not> sustainEnabled init
   \<and> \<not> map_has (activeOscillators
         (stopNote (Some 0) (state_of (playNote (1 / 2) (Some 0) init)))) 0
   \<and> stopped (stopNote (Some 0) (state_of (playNote (1 / 2) (Some 0) init))) = [0]
   \<and> sustainEnabled (init\<lparr>sustainEnabled := True\<rparr>)
   \<and> stopNote (Some 0) (state_of (playNote (1 / 2) (Some 0) (init\<lparr>sustainEnabled := True\<rparr>)))
       = state_of (playNote (1 / 2) (Some 0) (init\<lparr>sustainEnabled := True\<rparr>))"
proof -
  let ?p = "state_of (playNote (1 / 2) (Some 0) init)"
  let ?q = "state_of (playNote (1 / 2) (Some 0) (init\<lparr>sustainEnabled := True\<rparr>))"
  have a: "\<not> map_has (activeOscillators init) 0"
    and p: "playNote (1 / 2) (Some 0) init =
       Returned (init\<lparr>nodes := 2, started := [0],
         activeOscillators := [(0, \<lparr>oscillator = 0, gainNode = 1\<rparr>)]\<rparr>)"
    and b: "map_has (activeOscillators ?p) 0"
    and c: "\<not> sustainEnabled ?p" "\<not> sustainEnabled init"
    and d: "sustainEnabled ?q" "sustainEnabled (init\<lparr>sustainEnabled := True\<rparr>)"
    and e: "map_get (activeOscillators ?p) 0 = Some \<lparr>oscillator = 0, gainNode = 1\<rparr>"
           "stopped ?p = []"
    by (simp_all add: script_eval)
  have "stopNote (Some 0) init = init"
    using release_removes_voice [of init 0] a by blast
  moreover have "\<not> map_has (activeOscillators (stopNote (Some 0) ?p)) 0"
    using release_removes_voice [of init 0 "1 / 2"] c(2) by blast
  moreover have "stopped (stopNote (Some 0) ?p) = [0]"
    using release_removes_voice [of ?p 0] b c(1) e by auto
  moreover have "stopNote (Some 0) ?q = ?q"
    using release_removes_voice [of ?q 0] d(1) by blast
  ultimately show ?thesis using a p c d by blast
qed

text \<open>
  From any state the page reaches at a volume other than 0, take the events: key down of
  the space bar, a press of the key element \<open>d\<close> (key down of an identifier bound to
  \<open>d\<close>, or mouse down on \<open>d\<close>), key up of the identifier of \<open>d\<close>, key up of the space
  bar. The key up of the identifier changes nothing: it makes no call of \<open>stopNote\<close>,
  \<open>d\<close> keeps its voice and its active mark. The key up of the space bar sets
  \<open>sustainEnabled\<close> to false and then calls \<open>stopNote\<close> once for every element that is
  marked active, in the order of the voice map; afterwards no element is marked active
  and the voice map is empty.
\<close>

lemma keyup_Space:
  assumes "consistent s" and "code sp = ''Space''"
  shows "\<not> sustainEnabled (keyup keyMap sp s)
    \<and> released (keyup keyMap sp s) = released s @ map fst (activeOscillators s)
    \<and> active (keyup keyMap sp s) = {}
    \<and> activeOscillators (keyup keyMap sp s) = []"
proof -
  let ?s = "s\<lparr>sustainEnabled := False\<rparr>"
  let ?ks = "map fst (activeOscillators s)"
  have k: "keyup keyMap sp s = forEach_stop ?ks ?s"
    using assms(2) by (simp add: keyup_def)
  have "\<not> sustainEnabled ?s" by simp
  moreover have "distinct ?ks" using assms(1) by (simp add: consistent_def)
  moreover have "set ?ks \<subseteq> set (map fst (activeOscillators ?s))" by simp
  ultimately have f: "map fst (activeOscillators (forEach_stop ?ks ?s)) =
           filter (\<lambda>k. k \<notin> set ?ks) (map fst (activeOscillators ?s))
         \<and> active (forEach_stop ?ks ?s) = active ?s - set ?ks
         \<and> released (forEach_stop ?ks ?s) = released ?s @ ?ks
         \<and> sustainEnabled (forEach_stop ?ks ?s) = False"
    by (rule forEach_stop_flush)
  have "filter (\<lambda>k. k \<notin> set ?ks) (map fst (activeOscillators ?s)) = []"
    by (simp add: filter_empty_conv)
  with f have "activeOscillators (forEach_stop ?ks ?s) = []" by simp
  moreover have "active ?s - set ?ks = {}" using assms(1) by (simp add: consistent_def)
  ultimately show ?thesis unfolding k using f by simp
qed

lemma sustain_sequence_when_audible:
  assumes "volume \<noteq> 0"
    and "code sp = ''Space''" and "code e \<noteq> ''Space''"
    and "keyMap (toLowerCase (ev_key e)) = Some d"
    and "ev = Keydown e \<or> ev = Mousedown d"
  shows "let s2 = run volume keyMap [Keydown sp, ev] (run volume keyMap evs init);
             s3 = run volume keyMap [Keyup e] s2;
             s4 = run volume keyMap [Keyup sp] s3
         in sustainEnabled s2
            \<and> s3 = s2 \<and> released s3 = released s2
            \<and> map_has (activeOscillators s3) d \<and> d \<in> active s3
            \<and> \<not> sustainEnabled s4
            \<and> released s4 = released s3 @ map fst (activeOscillators s3)
            \<and> distinct (map fst (activeOscillators s3))
            \<and> set (map fst (activeOscillators s3)) = active s3
            \<and> active s4 = {}
            \<and> activeOscillators s4 = []"
proof -
  let ?s0 = "run volume keyMap evs init"
  let ?s1 = "?s0\<lparr>sustainEnabled := True\<rparr>"
  let ?s2 = "press volume d ?s1"
  have c0: "consistent ?s0" using consistent_init by (rule consistent_run)
  then have c1: "consistent ?s1" by (simp add: consistent_def)
  then have c2: "consistent ?s2" by (rule consistent_press)
  have e2: "sustainEnabled ?s2" by (simp add: press_other)
  have "volume * sustainLevel \<noteq> 0"
    using assms(1) ramp_target_zero [of volume] by blast
  then have "press volume d ?s1 = classList_add d (state_of (playNote volume (Some d) ?s1))
      \<and> map_has (activeOscillators ?s2) d"
    by (intro press_returned) simp
  then have pr: "?s2 = classList_add d (state_of (playNote volume (Some d) ?s1))"
    and h2: "map_has (activeOscillators ?s2) d"
    by blast+
  have a2: "d \<in> active ?s2"
    unfolding pr by (simp add: classList_simps)
  have "dispatch volume keyMap ?s1 ev = ?s2"
    using assms(3,4,5) by (auto simp add: keydown_press mousedown_press)
  then have s2: "run volume keyMap [Keydown sp, ev] ?s0 = ?s2"
    using assms(2) by (simp add: run_def keydown_def)
  have s3: "run volume keyMap [Keyup e] ?s2 = ?s2"
    using assms(3,4) e2 by (simp add: run_def keyup_def)
  have s4: "run volume keyMap [Keyup sp] ?s2 = keyup keyMap sp ?s2"
    by (simp add: run_def)
  have k: "\<not> sustainEnabled (keyup keyMap sp ?s2)
    \<and> released (keyup keyMap sp ?s2) = released ?s2 @ map fst (activeOscillators ?s2)
    \<and> active (keyup keyMap sp ?s2) = {}
    \<and> activeOscillators (keyup keyMap sp ?s2) = []"
    using c2 assms(2) by (simp add: keyup_Space)
  have "distinct (map fst (activeOscillators ?s2))
      \<and> set (map fst (activeOscillators ?s2)) = active ?s2"
    using c2 by (simp add: consistent_def)
  with e2 h2 a2 k show ?thesis
    unfolding Let_def s2 s3 s4 by simp
qed

text \<open>
  C6. On a page with the volume 0 the press inside the sustain sequence throws in
  \<open>playNote\<close>: after key down of the space bar, key down and key up of \<open>a\<close>, the first key
  has no voice and no active mark, where the claim has the voice remain and the key stay
  active; the key up of the space bar then finds no voice to release.
\<close>

theorem sustain_sequence_at_volume_zero:
  "run 0 (build_keyMap [''a'', ''w'', ''s''])
     [Keydown \<lparr>code = ''Space'', ev_key = '' ''\<rparr>,
      Keydown \<lparr>code = ''KeyA'', ev_key = ''a''\<rparr>,
      Keyup \<lparr>code = ''KeyA'', ev_key = ''a''\<rparr>] init
     = init\<lparr>sustainEnabled := True, nodes := 2\<rparr>
   \<and> \<not> map_has (activeOscillators (init\<lparr>sustainEnabled := True, nodes := 2\<rparr>)) 0
   \<and> 0 \<notin> active (init\<lparr>sustainEnabled := True, nodes := 2\<rparr>)
   \<and> run 0 (build_keyMap [''a'', ''w'', ''s''])
     [Keydown \<lparr>code = ''Space'', ev_key = '' ''\<rparr>,
      Keydown \<lparr>code = ''KeyA'', ev_key = ''a''\<rparr>,
      Keyup \<lparr>code = ''KeyA'', ev_key = ''a''\<rparr>,
      Keyup \<lparr>code = ''Space'', ev_key = '' ''\<rparr>] init
     = init\<lparr>nodes := 2\<rparr>"
  by (simp add: script_eval keyMap_60_3)

end
